theory Spec2Isabelle
  imports Complex_Main "HOL-Library.Log_Nat" "HOL-Library.Multiset"
begin

section \<open>Configuration constants and data (types.ts)\<close>

text \<open>
  Every number of the source is a JavaScript \<open>number\<close>. The coordinates, indices, seeds and
  scores of the game are integer-valued, and are modelled as \<open>int\<close>; the two places where
  binary64 arithmetic is not integer arithmetic (the product inside \<open>RNG.hash\<close> and the
  quotient of \<open>RNG.scale\<close>) are treated in the section on the generator.
\<close>

definition CANVAS_WIDTH :: int where "CANVAS_WIDTH = 200"
definition CANVAS_HEIGHT :: int where "CANVAS_HEIGHT = 400"
definition GRID_WIDTH :: nat where "GRID_WIDTH = 10"
definition GRID_HEIGHT :: nat where "GRID_HEIGHT = 20"
definition LEVEL_UP_LINES :: int where "LEVEL_UP_LINES = 5"

text \<open>\<open>Block.WIDTH\<close> and \<open>Block.HEIGHT\<close>: both quotients are exact (20).\<close>

definition Block_WIDTH :: int where "Block_WIDTH = CANVAS_WIDTH div int GRID_WIDTH"
definition Block_HEIGHT :: int where "Block_HEIGHT = CANVAS_HEIGHT div int GRID_HEIGHT"

datatype BlockType = SQUARE | L_SHAPE1 | L_SHAPE2 | T_SHAPE | LINE | Z_SHAPE1 | Z_SHAPE2

text \<open>A cell \<open>{x, y}\<close> of a falling block.\<close>

record Coord =
  cx :: int
  cy :: int

record FallingBlock =
  cells :: "Coord list"
  colour :: string
  type :: BlockType

text \<open>\<open>BlockCell\<close>; its field \<open>colour\<close> is named \<open>cellColour\<close> here.\<close>

record BlockCell =
  placed :: bool
  cellColour :: string

text \<open>
  \<open>None\<close> in a bag is JavaScript's \<open>undefined\<close>: \<open>shuffleBag\<close> puts the result of an
  array read into the bag, and a read outside the array gives \<open>undefined\<close>.
\<close>

type_synonym Bag = "BlockType option list"

record State =
  gameEnd :: bool
  fallingBlock :: FallingBlock
  placedBlocks :: "BlockCell list list"
  level :: int
  linesCleared :: int
  score :: int
  highScore :: int
  nextBlock :: FallingBlock
  heldBlock :: "FallingBlock option"
  blockHeldDuringFall :: bool
  currentSeed :: int
  currentBag :: Bag

text \<open>
  What the source does where a HOL function has no value: \<open>TypeError\<close> is the exception
  JavaScript throws on reading a property of \<open>undefined\<close> or calling \<open>undefined\<close>;
  \<open>OffGridWrite\<close> stands for the assignment \<open>acc[yIndex][xIndex] = ...\<close> of
  \<open>handleBlockLocking\<close> with a column index outside the row, where JavaScript does not
  throw but grows the row with holes (or sets a property named by a negative index), which
  leaves the dense grids of this development: the model stops there with this value.
\<close>

datatype error = TypeError | OffGridWrite

text \<open>Reading a dense array at an integer index: \<open>undefined\<close> outside \<open>0 .. length - 1\<close>.\<close>

definition lookup :: "'a list \<Rightarrow> int \<Rightarrow> 'a option" where
  "lookup xs i = (if 0 \<le> i \<and> i < int (length xs) then Some (xs ! nat i) else None)"

text \<open>Reading a bag: an \<open>undefined\<close> element and a missing element read the same.\<close>

definition lookupBag :: "Bag \<Rightarrow> int \<Rightarrow> BlockType option" where
  "lookupBag bag i = (case lookup bag i of None \<Rightarrow> None | Some v \<Rightarrow> v)"

section \<open>The generator (class RNG)\<close>

text \<open>
  \<open>RNG.hash\<close> computes \<open>(a * seed + c) % m\<close> in binary64. The product reaches \<open>2^61\<close> for
  seeds below \<open>2^31\<close>, beyond the 53 bits of a binary64 significand, so the product and the
  sum are each rounded to the nearest representable number, ties to even
  (\<open>roundDouble\<close>); the remainder \<open>%\<close> of two binary64 numbers is exact and takes the sign
  of the dividend (\<open>jsRem\<close>). The model is exact for integer seeds of magnitude below \<open>2^53\<close>.
\<close>

definition roundDouble :: "int \<Rightarrow> int" where
  "roundDouble n =
     (let k = \<bar>n\<bar> in
      if k < 2 ^ 53 then n
      else
        let e = nat (bitlen k - 53);
            q = k div 2 ^ e;
            r = k mod 2 ^ e;
            half = 2 ^ (e - 1);
            q' = (if r < half \<or> (r = half \<and> even q) then q else q + 1)
        in sgn n * (q' * 2 ^ e))"

definition jsRem :: "int \<Rightarrow> int \<Rightarrow> int" where
  "jsRem a b = sgn a * (\<bar>a\<bar> mod \<bar>b\<bar>)"

definition RNG_m :: int where "RNG_m = 2147483648"
definition RNG_a :: int where "RNG_a = 1738123921"
definition RNG_c :: int where "RNG_c = 15959"

definition hash :: "int \<Rightarrow> int" where
  "hash seed = jsRem (roundDouble (roundDouble (RNG_a * seed) + RNG_c)) RNG_m"

text \<open>
  \<open>RNG.scale\<close> divides by \<open>m - 1\<close>; the quotient is kept as an exact rational. For a hash
  \<open>h\<close> with \<open>0 \<le> h \<le> m - 1\<close> and an array of at most 7 elements, the binary64 quotient
  and product have the same floor as the exact ones and compare with 1 in the same way:
  \<open>m - 1\<close> is prime, so \<open>h * n / (m - 1)\<close> is an integer only for \<open>h = 0\<close> and
  \<open>h = m - 1\<close>, and is otherwise at least \<open>1 / (m - 1)\<close> away from every integer, much
  more than the rounding error.
\<close>

definition scale :: "int \<Rightarrow> rat" where
  "scale h = of_int h / of_int (RNG_m - 1)"

text \<open>\<open>Math.floor(RNG.scale(RNG.hash(seed)) * n)\<close>, the index both callers compute.\<close>

definition randomIndexOf :: "int \<Rightarrow> int \<Rightarrow> int" where
  "randomIndexOf seed n = \<lfloor>scale (hash seed) * of_int n\<rfloor>"

section \<open>Block geometry (types.ts)\<close>

definition squareBlock :: FallingBlock where
  "squareBlock =
     \<lparr>cells = [\<lparr>cx = CANVAS_WIDTH div 2, cy = 0\<rparr>,
                \<lparr>cx = CANVAS_WIDTH div 2 - Block_WIDTH, cy = 0\<rparr>,
                \<lparr>cx = CANVAS_WIDTH div 2, cy = Block_HEIGHT\<rparr>,
                \<lparr>cx = CANVAS_WIDTH div 2 - Block_WIDTH, cy = Block_HEIGHT\<rparr>],
      colour = ''#FFFF00'', type = SQUARE\<rparr>"

definition lShapeBlock1 :: FallingBlock where
  "lShapeBlock1 =
     \<lparr>cells = [\<lparr>cx = CANVAS_WIDTH div 2 - 2 * Block_WIDTH, cy = Block_HEIGHT\<rparr>,
                \<lparr>cx = CANVAS_WIDTH div 2 - Block_WIDTH, cy = Block_HEIGHT\<rparr>,
                \<lparr>cx = CANVAS_WIDTH div 2 - 2 * Block_WIDTH, cy = 0\<rparr>,
                \<lparr>cx = CANVAS_WIDTH div 2, cy = Block_HEIGHT\<rparr>],
      colour = ''#0000FF'', type = L_SHAPE1\<rparr>"

definition lShapeBlock2 :: FallingBlock where
  "lShapeBlock2 =
     \<lparr>cells = [\<lparr>cx = CANVAS_WIDTH div 2 - 2 * Block_WIDTH, cy = Block_HEIGHT\<rparr>,
                \<lparr>cx = CANVAS_WIDTH div 2 - Block_WIDTH, cy = Block_HEIGHT\<rparr>,
                \<lparr>cx = CANVAS_WIDTH div 2, cy = 0\<rparr>,
                \<lparr>cx = CANVAS_WIDTH div 2, cy = Block_HEIGHT\<rparr>],
      colour = ''#FFA500'', type = L_SHAPE2\<rparr>"

definition tShapeBlock :: FallingBlock where
  "tShapeBlock =
     \<lparr>cells = [\<lparr>cx = CANVAS_WIDTH div 2 - 2 * Block_WIDTH, cy = Block_HEIGHT\<rparr>,
                \<lparr>cx = CANVAS_WIDTH div 2 - Block_WIDTH, cy = Block_HEIGHT\<rparr>,
                \<lparr>cx = CANVAS_WIDTH div 2, cy = Block_HEIGHT\<rparr>,
                \<lparr>cx = CANVAS_WIDTH div 2 - Block_WIDTH, cy = 0\<rparr>],
      colour = ''#FF00FF'', type = T_SHAPE\<rparr>"

definition zShapeBlock1 :: FallingBlock where
  "zShapeBlock1 =
     \<lparr>cells = [\<lparr>cx = CANVAS_WIDTH div 2 - 2 * Block_WIDTH, cy = Block_HEIGHT\<rparr>,
                \<lparr>cx = CANVAS_WIDTH div 2 - Block_WIDTH, cy = Block_HEIGHT\<rparr>,
                \<lparr>cx = CANVAS_WIDTH div 2, cy = 0\<rparr>,
                \<lparr>cx = CANVAS_WIDTH div 2 - Block_WIDTH, cy = 0\<rparr>],
      colour = ''#00FF00'', type = Z_SHAPE1\<rparr>"

definition zShapeBlock2 :: FallingBlock where
  "zShapeBlock2 =
     \<lparr>cells = [\<lparr>cx = CANVAS_WIDTH div 2 - 2 * Block_WIDTH, cy = 0\<rparr>,
                \<lparr>cx = CANVAS_WIDTH div 2 - Block_WIDTH, cy = Block_HEIGHT\<rparr>,
                \<lparr>cx = CANVAS_WIDTH div 2, cy = Block_HEIGHT\<rparr>,
                \<lparr>cx = CANVAS_WIDTH div 2 - Block_WIDTH, cy = 0\<rparr>],
      colour = ''#FF0000'', type = Z_SHAPE2\<rparr>"

definition lineBlock :: FallingBlock where
  "lineBlock =
     \<lparr>cells = [\<lparr>cx = CANVAS_WIDTH div 2 - Block_WIDTH, cy = 0\<rparr>,
                \<lparr>cx = CANVAS_WIDTH div 2, cy = 0\<rparr>,
                \<lparr>cx = CANVAS_WIDTH div 2 + Block_WIDTH, cy = 0\<rparr>,
                \<lparr>cx = CANVAS_WIDTH div 2 - 2 * Block_WIDTH, cy = 0\<rparr>],
      colour = ''#00FFFF'', type = LINE\<rparr>"

fun blockConfigurations :: "BlockType \<Rightarrow> FallingBlock" where
  "blockConfigurations SQUARE = squareBlock"
| "blockConfigurations L_SHAPE1 = lShapeBlock1"
| "blockConfigurations L_SHAPE2 = lShapeBlock2"
| "blockConfigurations T_SHAPE = tShapeBlock"
| "blockConfigurations Z_SHAPE1 = zShapeBlock1"
| "blockConfigurations Z_SHAPE2 = zShapeBlock2"
| "blockConfigurations LINE = lineBlock"

definition emptyCell :: BlockCell where
  "emptyCell = \<lparr>placed = False, cellColour = []\<rparr>"

definition emptyGrid :: "BlockCell list list" where
  "emptyGrid = replicate GRID_HEIGHT (replicate GRID_WIDTH emptyCell)"

section \<open>The bag (utility.ts)\<close>

text \<open>
  \<open>createFallingBlock\<close> on a block type. Its caller \<open>drawFromBag\<close> can pass \<open>undefined\<close>;
  \<open>blockConfigurations[undefined]\<close> is \<open>undefined\<close> and calling it throws, which
  \<open>drawFromBag\<close> below writes out.
\<close>

definition createFallingBlock :: "BlockType \<Rightarrow> FallingBlock" where
  "createFallingBlock t = blockConfigurations t"

text \<open>\<open>Object.values(BlockType)\<close> filtered to the numbers: the kinds in the order of the enum.\<close>

definition blockTypes :: Bag where
  "blockTypes = map Some [SQUARE, L_SHAPE1, L_SHAPE2, T_SHAPE, LINE, Z_SHAPE1, Z_SHAPE2]"

text \<open>
  One call of the callback of \<open>reduce\<close> in \<open>shuffleBag\<close>; the seed, a variable the callback
  assigns, is threaded with the accumulator.
\<close>

definition shuffleStep :: "int \<times> Bag \<Rightarrow> nat \<Rightarrow> int \<times> Bag" where
  "shuffleStep sa currentIndex =
     (let seed = fst sa; acc = snd sa;
          remaining = int (length acc) - int currentIndex;
          randomIndex = randomIndexOf seed remaining
      in (hash seed,
          map (\<lambda>index. if int index = remaining - 1 then lookupBag acc randomIndex
                        else if int index = randomIndex then lookupBag acc (remaining - 1)
                        else acc ! index)
              [0 ..< length acc]))"

definition shuffleBag :: "int \<Rightarrow> Bag" where
  "shuffleBag seed = snd (foldl shuffleStep (seed, blockTypes) [0 ..< length blockTypes])"

record DrawResult =
  drawnBlock :: FallingBlock
  newSeed :: int
  newBag :: Bag

text \<open>
  \<open>drawFromBag\<close>. The two \<open>slice\<close> calls are \<open>take\<close> and \<open>drop\<close>: the result is only
  returned when \<open>drawnType\<close> is a block type, and then \<open>randomIndex\<close> is inside the bag.
\<close>

definition drawFromBag :: "int \<Rightarrow> Bag \<Rightarrow> error + DrawResult" where
  "drawFromBag seed0 currentBag0 =
     (let currentBag = (if length currentBag0 = 0 then shuffleBag seed0 else currentBag0);
          seed = (if length currentBag0 = 0 then hash seed0 else seed0);
          randomIndex = randomIndexOf seed (int (length currentBag));
          newSeed = hash seed;
          drawnType = lookupBag currentBag randomIndex;
          newBag = take (nat randomIndex) currentBag @ drop (nat randomIndex + 1) currentBag
      in case drawnType of
           None \<Rightarrow> Inl TypeError
         | Some t \<Rightarrow> Inr \<lparr>drawnBlock = createFallingBlock t, newSeed = newSeed, newBag = newBag\<rparr>)"

text \<open>
  The module constant \<open>initialState\<close> of types.ts, built from two draws starting at seed 159.
\<close>

definition initialState :: "error + State" where
  "initialState =
     (case drawFromBag 159 (shuffleBag 159) of
        Inl e \<Rightarrow> Inl e
      | Inr d1 \<Rightarrow>
          (case drawFromBag (newSeed d1) (newBag d1) of
             Inl e \<Rightarrow> Inl e
           | Inr d2 \<Rightarrow>
               Inr \<lparr>gameEnd = False,
                    fallingBlock = drawnBlock d1,
                    placedBlocks = emptyGrid,
                    level = 1,
                    linesCleared = 0,
                    score = 0,
                    highScore = 0,
                    nextBlock = drawnBlock d2,
                    heldBlock = None,
                    blockHeldDuringFall = False,
                    currentSeed = newSeed d2,
                    currentBag = shuffleBag (newSeed d2)\<rparr>))"

section \<open>Collision checking and rotation helpers (utility.ts)\<close>

text \<open>
  \<open>isValidPosition\<close>, with the callback of its \<open>filter\<close> as \<open>isInvalidCell\<close>. Every array
  read is guarded with \<open>&&\<close>, so it never throws: a missing row or a missing cell is
  falsy and the cell of the block counts as free.
\<close>

definition isInvalidCell :: "BlockCell list list \<Rightarrow> Coord \<Rightarrow> bool" where
  "isInvalidCell placedBlocks0 cell =
     (if cx cell < 0 \<or> cx cell \<ge> CANVAS_WIDTH then True
      else if cy cell < 0 \<or> cy cell \<ge> CANVAS_HEIGHT then True
      else
        let yIndex = cy cell div Block_HEIGHT;
            xIndex = cx cell div Block_WIDTH
        in (case lookup placedBlocks0 yIndex of
              None \<Rightarrow> False
            | Some row \<Rightarrow> (case lookup row xIndex of None \<Rightarrow> False | Some c \<Rightarrow> placed c)))"

definition isValidPosition :: "FallingBlock \<Rightarrow> BlockCell list list \<Rightarrow> bool" where
  "isValidPosition block placedBlocks0 =
     (let invalidCells = filter (isInvalidCell placedBlocks0) (cells block)
      in length invalidCells = 0)"

definition isHorizontalLineBlock :: "int set \<Rightarrow> bool" where
  "isHorizontalLineBlock xCoords = (card xCoords = 4)"

text \<open>
  \<open>generateRotatedCells\<close>. The pivot is \<open>cells[1]\<close> of the caller, \<open>undefined\<close> for a block
  of fewer than two cells; the callback of \<open>map\<close> reads \<open>pivot.x\<close>, which throws as soon as
  there is a cell to map.
\<close>

definition generateRotatedCells :: "Coord list \<Rightarrow> Coord option \<Rightarrow> bool \<Rightarrow> error + Coord list" where
  "generateRotatedCells cs pivot isLineHorizontal =
     (case pivot of
        None \<Rightarrow> (if cs = [] then Inr [] else Inl TypeError)
      | Some p \<Rightarrow>
          Inr (map (\<lambda>cell.
                 let relativeX = cx cell - cx p;
                     relativeY = cy cell - cy p;
                     newRelativeCoords =
                       (if isLineHorizontal then \<lparr>cx = relativeY, cy = - relativeX\<rparr>
                        else \<lparr>cx = - relativeY, cy = relativeX\<rparr>)
                 in \<lparr>cx = cx p + cx newRelativeCoords, cy = cy p + cy newRelativeCoords\<rparr>) cs))"

section \<open>State transitions (state.ts)\<close>

text \<open>
  \<open>Array.prototype.filter\<close> with a callback that can throw: the callback runs on every
  element in order and the first exception ends the call.
\<close>

fun filterE :: "('a \<Rightarrow> error + bool) \<Rightarrow> 'a list \<Rightarrow> error + 'a list" where
  "filterE p [] = Inr []"
| "filterE p (a # as) =
     (case p a of
        Inl e \<Rightarrow> Inl e
      | Inr b \<Rightarrow> (case filterE p as of Inl e \<Rightarrow> Inl e | Inr r \<Rightarrow> Inr (if b then a # r else r)))"

text \<open>
  The expression \<open>placedBlocks[yIndex] && placedBlocks[yIndex][xIndex].placed\<close> of
  \<open>canMove\<close>, \<open>canMoveDown\<close> and \<open>tick\<close>: a missing row is falsy, a missing cell in an
  existing row throws.
\<close>

definition rowCellPlaced :: "BlockCell list list \<Rightarrow> int \<Rightarrow> int \<Rightarrow> error + bool" where
  "rowCellPlaced placedBlocks0 yIndex xIndex =
     (case lookup placedBlocks0 yIndex of
        None \<Rightarrow> Inr False
      | Some row \<Rightarrow> (case lookup row xIndex of None \<Rightarrow> Inl TypeError | Some c \<Rightarrow> Inr (placed c)))"

text \<open>The wall-kick lists of \<open>rotateBlock\<close>, in cell units.\<close>

definition lineBlockWallKickTests :: "Coord list" where
  "lineBlockWallKickTests =
     [\<lparr>cx = 0, cy = 0\<rparr>, \<lparr>cx = -1, cy = 0\<rparr>, \<lparr>cx = 2, cy = 0\<rparr>, \<lparr>cx = -2, cy = 0\<rparr>,
      \<lparr>cx = 0, cy = 1\<rparr>, \<lparr>cx = 0, cy = -1\<rparr>, \<lparr>cx = -1, cy = 2\<rparr>, \<lparr>cx = 1, cy = -2\<rparr>]"

definition standardWallKickTests :: "Coord list" where
  "standardWallKickTests =
     [\<lparr>cx = 0, cy = 0\<rparr>, \<lparr>cx = 1, cy = 0\<rparr>, \<lparr>cx = -1, cy = 0\<rparr>, \<lparr>cx = 2, cy = 0\<rparr>,
      \<lparr>cx = -2, cy = 0\<rparr>]"

text \<open>The block \<open>kicked\<close> that \<open>rotateBlock\<close> builds from the rotated block and a test.\<close>

definition kicked :: "FallingBlock \<Rightarrow> Coord \<Rightarrow> FallingBlock" where
  "kicked rotatedBlock test =
     rotatedBlock\<lparr>cells := map (\<lambda>cell. \<lparr>cx = cx cell + cx test * Block_WIDTH,
                                          cy = cy cell + cy test * Block_HEIGHT\<rparr>)
                               (cells rotatedBlock)\<rparr>"

definition rotateBlock :: "State \<Rightarrow> error + State" where
  "rotateBlock s =
     (let xCoords = set (map cx (cells (fallingBlock s)));
          yCoords = set (map cy (cells (fallingBlock s)));
          pivot = lookup (cells (fallingBlock s)) 1;
          isLineBlockHorizontal = isHorizontalLineBlock xCoords
      in if card xCoords = 2 \<and> card yCoords = 2 then Inr s
         else
           (case generateRotatedCells (cells (fallingBlock s)) pivot isLineBlockHorizontal of
              Inl e \<Rightarrow> Inl e
            | Inr newCells \<Rightarrow>
                let rotatedBlock = (fallingBlock s)\<lparr>cells := newCells\<rparr>
                in if isValidPosition rotatedBlock (placedBlocks s)
                   then Inr (s\<lparr>fallingBlock := rotatedBlock\<rparr>)
                   else
                     let testsToUse = (if isLineBlockHorizontal then lineBlockWallKickTests
                                       else standardWallKickTests)
                     in (case find (\<lambda>test. isValidPosition (kicked rotatedBlock test) (placedBlocks s))
                                   testsToUse of
                           Some validKick \<Rightarrow> Inr (s\<lparr>fallingBlock := kicked rotatedBlock validKick\<rparr>)
                         | None \<Rightarrow> Inr s)))"

datatype Direction = DirLeft | DirRight

definition offsetX :: "Direction \<Rightarrow> int" where
  "offsetX direction = (if direction = DirLeft then - Block_WIDTH else Block_WIDTH)"

text \<open>The callback of \<open>filter\<close> in \<open>canMove\<close>.\<close>

definition moveInvalidCell :: "Direction \<Rightarrow> State \<Rightarrow> Coord \<Rightarrow> error + bool" where
  "moveInvalidCell direction s cell =
     (let newX = cx cell + offsetX direction
      in if newX < 0 \<or> newX \<ge> CANVAS_WIDTH then Inr True
         else
           let yIndex = cy cell div Block_HEIGHT;
               xIndex = newX div Block_WIDTH
           in rowCellPlaced (placedBlocks s) yIndex xIndex)"

definition canMove :: "Direction \<Rightarrow> State \<Rightarrow> error + bool" where
  "canMove direction s =
     (case filterE (moveInvalidCell direction s) (cells (fallingBlock s)) of
        Inl e \<Rightarrow> Inl e
      | Inr invalidCells \<Rightarrow> Inr (length invalidCells = 0))"

definition move :: "Direction \<Rightarrow> State \<Rightarrow> error + State" where
  "move direction s =
     (case canMove direction s of
        Inl e \<Rightarrow> Inl e
      | Inr ok \<Rightarrow>
          if ok
          then Inr (s\<lparr>fallingBlock := (fallingBlock s)
                     \<lparr>cells := map (\<lambda>cell. \<lparr>cx = cx cell + offsetX direction, cy = cy cell\<rparr>)
                                   (cells (fallingBlock s))\<rparr>\<rparr>)
          else Inr s)"

definition moveLeft :: "State \<Rightarrow> error + State" where
  "moveLeft = move DirLeft"

definition moveRight :: "State \<Rightarrow> error + State" where
  "moveRight = move DirRight"

text \<open>The callback of \<open>filter\<close> in \<open>canMoveDown\<close>.\<close>

definition downInvalidCell :: "State \<Rightarrow> Coord \<Rightarrow> error + bool" where
  "downInvalidCell state cell =
     (let newY = cy cell + Block_HEIGHT
      in if newY \<ge> CANVAS_HEIGHT then Inr True
         else
           let yIndex = newY div Block_HEIGHT;
               xIndex = cx cell div Block_WIDTH
           in rowCellPlaced (placedBlocks state) yIndex xIndex)"

definition canMoveDown :: "State \<Rightarrow> error + bool" where
  "canMoveDown state =
     (case filterE (downInvalidCell state) (cells (fallingBlock state)) of
        Inl e \<Rightarrow> Inl e
      | Inr invalidDownCells \<Rightarrow> Inr (length invalidDownCells = 0))"

definition moveBlockDown :: "State \<Rightarrow> State" where
  "moveBlockDown state =
     state\<lparr>fallingBlock := (fallingBlock state)
        \<lparr>cells := map (\<lambda>cell. \<lparr>cx = cx cell, cy = cy cell + Block_HEIGHT\<rparr>)
                      (cells (fallingBlock state))\<rparr>\<rparr>"

text \<open>
  \<open>clearFullRows\<close>. The call \<open>level$.next\<close>, which only reschedules the timer, is not part of
  the state and is left out.
\<close>

definition clearFullRows :: "State \<Rightarrow> State" where
  "clearFullRows s =
     (let filteredPlacedBlocks =
            filter (\<lambda>row. length (filter (\<lambda>cell. placed cell) row) \<noteq> length row) (placedBlocks s);
          reducedLinesCleared = length (placedBlocks s) - length filteredPlacedBlocks;
          emptyRows = replicate reducedLinesCleared (replicate GRID_WIDTH emptyCell);
          updatedPlacedBlocks = emptyRows @ filteredPlacedBlocks;
          newLinesCleared = linesCleared s + int reducedLinesCleared;
          levelUp = (newLinesCleared \<ge> LEVEL_UP_LINES)
      in s\<lparr>placedBlocks := updatedPlacedBlocks,
            score := score s + int reducedLinesCleared * 100,
            level := (if levelUp then min (level s + 1) 6 else level s),
            linesCleared := (if levelUp then 0 else newLinesCleared)\<rparr>)"

text \<open>
  One call of the callback of \<open>reduce\<close> in \<open>handleBlockLocking\<close>:
  \<open>acc[yIndex][xIndex] = { placed: true, colour }\<close>. A missing row throws; a column index
  outside the row is \<open>OffGridWrite\<close>.
\<close>

definition stampCell :: "string \<Rightarrow> BlockCell list list \<Rightarrow> Coord \<Rightarrow> error + BlockCell list list" where
  "stampCell col acc cell =
     (let yIndex = cy cell div Block_HEIGHT;
          xIndex = cx cell div Block_WIDTH
      in case lookup acc yIndex of
           None \<Rightarrow> Inl TypeError
         | Some row \<Rightarrow>
             if 0 \<le> xIndex \<and> xIndex < int (length row)
             then Inr (acc[nat yIndex := row[nat xIndex := \<lparr>placed = True, cellColour = col\<rparr>]])
             else Inl OffGridWrite)"

fun stampCells :: "string \<Rightarrow> BlockCell list list \<Rightarrow> Coord list \<Rightarrow> error + BlockCell list list" where
  "stampCells col acc [] = Inr acc"
| "stampCells col acc (cell # rest) =
     (case stampCell col acc cell of Inl e \<Rightarrow> Inl e | Inr acc' \<Rightarrow> stampCells col acc' rest)"

definition handleBlockLocking :: "State \<Rightarrow> error + State" where
  "handleBlockLocking s =
     (let newPlacedBlocks = map (\<lambda>row. map (\<lambda>cell. cell) row) (placedBlocks s)
      in case stampCells (colour (fallingBlock s)) newPlacedBlocks (cells (fallingBlock s)) of
           Inl e \<Rightarrow> Inl e
         | Inr updatedPlacedBlocks \<Rightarrow>
             let gameEnd0 = list_ex (\<lambda>cell. cy cell div Block_HEIGHT = 0) (cells (fallingBlock s))
             in (case drawFromBag (currentSeed s) (currentBag s) of
                   Inl e \<Rightarrow> Inl e
                 | Inr d \<Rightarrow>
                     Inr (clearFullRows
                           (s\<lparr>gameEnd := gameEnd0,
                              fallingBlock := nextBlock s,
                              placedBlocks := updatedPlacedBlocks,
                              nextBlock := drawnBlock d,
                              blockHeldDuringFall := False,
                              currentSeed := newSeed d,
                              currentBag := newBag d\<rparr>))))"

text \<open>
  \<open>moveHardDown\<close> and \<open>moveGhostBlockToGround\<close> call themselves for as long as
  \<open>canMoveDown\<close> holds, which is for ever on a block without cells: \<open>None\<close> is the call
  that does not return.
\<close>

partial_function (option) moveHardDown :: "State \<Rightarrow> (error + State) option" where
  "moveHardDown s =
     (case canMoveDown s of
        Inl e \<Rightarrow> Some (Inl e)
      | Inr ok \<Rightarrow> if ok then moveHardDown (moveBlockDown s) else Some (handleBlockLocking s))"

partial_function (option) moveGhostBlockToGround ::
    "State \<Rightarrow> FallingBlock \<Rightarrow> (error + FallingBlock) option" where
  "moveGhostBlockToGround state ghostBlock =
     (case canMoveDown (state\<lparr>fallingBlock := ghostBlock\<rparr>) of
        Inl e \<Rightarrow> Some (Inl e)
      | Inr ok \<Rightarrow>
          if ok
          then moveGhostBlockToGround (state\<lparr>fallingBlock := ghostBlock\<rparr>)
                 (fallingBlock (moveBlockDown (state\<lparr>fallingBlock := ghostBlock\<rparr>)))
          else Some (Inr ghostBlock))"

declare moveHardDown.simps [code]

declare moveGhostBlockToGround.simps [code]

definition getGhostBlockPosition :: "State \<Rightarrow> (error + FallingBlock) option" where
  "getGhostBlockPosition state =
     (let initialGhostBlock = fallingBlock state
      in moveGhostBlockToGround state initialGhostBlock)"

definition holdBlock :: "State \<Rightarrow> error + State" where
  "holdBlock s =
     (if blockHeldDuringFall s then Inr s
      else
        let shouldUseHeldBlock = (heldBlock s \<noteq> None);
            newFallingBlockType =
              (case heldBlock s of Some h \<Rightarrow> type h | None \<Rightarrow> type (nextBlock s));
            newFallingBlock = createFallingBlock newFallingBlockType
        in case (if shouldUseHeldBlock
                 then Inr \<lparr>drawnBlock = nextBlock s, newSeed = currentSeed s,
                           newBag = currentBag s\<rparr>
                 else drawFromBag (currentSeed s) (currentBag s)) of
             Inl e \<Rightarrow> Inl e
           | Inr d \<Rightarrow>
               Inr (s\<lparr>fallingBlock := newFallingBlock,
                      heldBlock := Some (createFallingBlock (type (fallingBlock s))),
                      blockHeldDuringFall := True,
                      nextBlock := drawnBlock d,
                      currentSeed := newSeed d,
                      currentBag := newBag d\<rparr>))"

text \<open>
  \<open>restartGame\<close>. \<open>level$.next(1)\<close> and the removal of the hold preview from the page act
  on the timer and the document, not on the state, and are left out.
\<close>

definition restartGame :: "State \<Rightarrow> error + State" where
  "restartGame s =
     (if gameEnd s
      then
        (case drawFromBag (currentSeed s) (currentBag s) of
           Inl e \<Rightarrow> Inl e
         | Inr d1 \<Rightarrow>
             (case drawFromBag (newSeed d1) (newBag d1) of
                Inl e \<Rightarrow> Inl e
              | Inr d2 \<Rightarrow>
                  (case initialState of
                     Inl e \<Rightarrow> Inl e
                   | Inr init \<Rightarrow>
                       Inr (init\<lparr>highScore := max (score s) (highScore s),
                                 fallingBlock := drawnBlock d1,
                                 nextBlock := drawnBlock d2,
                                 blockHeldDuringFall := False,
                                 heldBlock := None,
                                 currentSeed := newSeed d2,
                                 currentBag := newBag d2\<rparr>))))
      else Inr s)"

text \<open>
  \<open>tick\<close>: \<open>map\<close> runs the callback on every cell, \<open>||\<close> skips the grid read below the
  canvas, and only the value \<open>true\<close> counts as a collision.
\<close>

definition tick :: "State \<Rightarrow> error + State" where
  "tick s =
     (case filterE (\<lambda>cell.
             let newY = cy cell + Block_HEIGHT;
                 yIndex = newY div Block_HEIGHT;
                 xIndex = cx cell div Block_WIDTH
             in if newY \<ge> CANVAS_HEIGHT then Inr True
                else rowCellPlaced (placedBlocks s) yIndex xIndex)
           (cells (fallingBlock s)) of
        Inl e \<Rightarrow> Inl e
      | Inr collisions \<Rightarrow>
          if length collisions > 0 then handleBlockLocking s
          else Inr (s\<lparr>fallingBlock := (fallingBlock s)
                      \<lparr>cells := map (\<lambda>cell. \<lparr>cx = cx cell, cy = cy cell + Block_HEIGHT\<rparr>)
                                    (cells (fallingBlock s))\<rparr>\<rparr>))"

definition moveDown :: "State \<Rightarrow> error + State" where
  "moveDown s = tick s"

section \<open>The reducer (main.ts)\<close>

text \<open>The functions the streams of main.ts map key presses and timer ticks to.\<close>

datatype Action =
  MoveLeft | MoveRight | MoveDown | Tick | RotateMove | HardDownMove | RestartMove | HoldMove

fun applyAction :: "Action \<Rightarrow> State \<Rightarrow> (error + State) option" where
  "applyAction MoveLeft s = Some (moveLeft s)"
| "applyAction MoveRight s = Some (moveRight s)"
| "applyAction MoveDown s = Some (moveDown s)"
| "applyAction Tick s = Some (tick s)"
| "applyAction RotateMove s = Some (rotateBlock s)"
| "applyAction HardDownMove s = moveHardDown s"
| "applyAction RestartMove s = Some (restartGame s)"
| "applyAction HoldMove s = Some (holdBlock s)"

text \<open>The function given to \<open>scan\<close>.\<close>

definition reducer :: "State \<Rightarrow> Action \<Rightarrow> (error + State) option" where
  "reducer state action =
     (if gameEnd state
      then (if action = RestartMove then applyAction action state else Some (Inr state))
      else applyAction action state)"

section \<open>Drawing a bag to exhaustion\<close>

text \<open>
  \<open>drawMany n\<close> calls \<open>drawFromBag\<close> \<open>n\<close> times, each call on the seed and the bag the
  previous one returned, and collects the kinds drawn.
\<close>

fun drawMany :: "nat \<Rightarrow> int \<Rightarrow> Bag \<Rightarrow> error + (BlockType list \<times> int \<times> Bag)" where
  "drawMany 0 seed bag = Inr ([], seed, bag)"
| "drawMany (Suc n) seed bag =
     (case drawFromBag seed bag of
        Inl e \<Rightarrow> Inl e
      | Inr d \<Rightarrow>
          (case drawMany n (newSeed d) (newBag d) of
             Inl e \<Rightarrow> Inl e
           | Inr r \<Rightarrow> Inr (type (drawnBlock d) # fst r, snd r)))"

section \<open>Example states\<close>

text \<open>The value of \<open>initialState\<close>: the two draws from seed 159 give a T and an L.\<close>

definition initialStateValue :: State where
  "initialStateValue =
     \<lparr>gameEnd = False,
      fallingBlock = tShapeBlock,
      placedBlocks = emptyGrid,
      level = 1,
      linesCleared = 0,
      score = 0,
      highScore = 0,
      nextBlock = lShapeBlock2,
      heldBlock = None,
      blockHeldDuringFall = False,
      currentSeed = 98648576,
      currentBag = map Some [L_SHAPE2, SQUARE, T_SHAPE, LINE, Z_SHAPE2, L_SHAPE1, Z_SHAPE1]\<rparr>"

text \<open>
  A grid whose bottom row is placed except in columns 3 to 6, a line block at its spawn
  position above that gap, and the same block landed in the gap.
\<close>

definition redCell :: BlockCell where
  "redCell = \<lparr>placed = True, cellColour = ''#FF0000''\<rparr>"

definition gapGrid :: "BlockCell list list" where
  "gapGrid = replicate 19 (replicate 10 emptyCell)
             @ [replicate 3 redCell @ replicate 4 emptyCell @ replicate 3 redCell]"

definition gapState :: State where
  "gapState = initialStateValue\<lparr>fallingBlock := lineBlock, placedBlocks := gapGrid\<rparr>"

definition landedLine :: FallingBlock where
  "landedLine = lineBlock\<lparr>cells := [\<lparr>cx = 80, cy = 380\<rparr>, \<lparr>cx = 100, cy = 380\<rparr>,
                                     \<lparr>cx = 120, cy = 380\<rparr>, \<lparr>cx = 60, cy = 380\<rparr>]\<rparr>"

definition landedState :: State where
  "landedState = gapState\<lparr>fallingBlock := landedLine\<rparr>"

section \<open>Shifted blocks\<close>

text \<open>
  The block \<open>move\<close> puts into the state when the move is accepted, and the block
  \<open>moveBlockDown\<close> puts into the state.
\<close>

definition shiftedBlock :: "Direction \<Rightarrow> FallingBlock \<Rightarrow> FallingBlock" where
  "shiftedBlock direction b =
     b\<lparr>cells := map (\<lambda>cell. \<lparr>cx = cx cell + offsetX direction, cy = cy cell\<rparr>) (cells b)\<rparr>"

definition shiftDown :: "FallingBlock \<Rightarrow> FallingBlock" where
  "shiftDown b = b\<lparr>cells := map (\<lambda>cell. \<lparr>cx = cx cell, cy = cy cell + Block_HEIGHT\<rparr>) (cells b)\<rparr>"

text \<open>A block moved by an offset, every cell alike.\<close>

definition translated :: "int \<Rightarrow> int \<Rightarrow> FallingBlock \<Rightarrow> FallingBlock" where
  "translated dx dy b = b\<lparr>cells := map (\<lambda>cell. \<lparr>cx = cx cell + dx, cy = cy cell + dy\<rparr>) (cells b)\<rparr>"

section \<open>The descent condition in the words of the specification\<close>

text \<open>
  The specification lets a block descend while the shift by one cell-height keeps it off
  the bottom of the board and off placed cells. \<open>specBlockedBelow\<close> is that condition for
  one cell, read on the grid as \<open>isValidPosition\<close> reads it (a cell of the grid that does
  not exist is not placed); \<open>specCanDescend\<close> is the condition for a block.
\<close>

definition specBlockedBelow :: "BlockCell list list \<Rightarrow> Coord \<Rightarrow> bool" where
  "specBlockedBelow grid cell =
     (cy cell + Block_HEIGHT \<ge> CANVAS_HEIGHT \<or>
      (case lookup grid ((cy cell + Block_HEIGHT) div Block_HEIGHT) of
         None \<Rightarrow> False
       | Some row \<Rightarrow>
           (case lookup row (cx cell div Block_WIDTH) of None \<Rightarrow> False | Some c \<Rightarrow> placed c)))"

definition specCanDescend :: "BlockCell list list \<Rightarrow> FallingBlock \<Rightarrow> bool" where
  "specCanDescend grid b = list_all (\<lambda>cell. \<not> specBlockedBelow grid cell) (cells b)"

section \<open>The spawn area in the words of the specification\<close>

text \<open>
  The specification anchors every constructor's four cells at the top centre of the board.
  \<open>atSpawnAnchor\<close> says so of a block: four cells, each in one of the two top rows and in
  one of the four centre columns (from two cell-widths left of the centre line to one
  cell-width right of it).
\<close>

definition atSpawnAnchor :: "FallingBlock \<Rightarrow> bool" where
  "atSpawnAnchor b =
     (length (cells b) = 4 \<and>
      list_all (\<lambda>cell. (cy cell = 0 \<or> cy cell = Block_HEIGHT) \<and>
                       CANVAS_WIDTH div 2 - 2 * Block_WIDTH \<le> cx cell \<and>
                       cx cell \<le> CANVAS_WIDTH div 2 + Block_WIDTH)
               (cells b))"

section \<open>Further example states\<close>

text \<open>An ended game with a score above the high score.\<close>

definition endedState :: State where
  "endedState = initialStateValue\<lparr>gameEnd := True, score := 300, highScore := 100\<rparr>"

text \<open>
  The landed line of \<open>landedState\<close> with a T block in the hold slot, the hold gate open.
\<close>

definition heldTState :: State where
  "heldTState = landedState\<lparr>heldBlock := Some tShapeBlock\<rparr>"

text \<open>The square block moved one column right and two rows down.\<close>

definition movedSquareState :: State where
  "movedSquareState = initialStateValue\<lparr>fallingBlock := translated 20 40 squareBlock\<rparr>"

section \<open>The states of a game\<close>

text \<open>
  The states \<open>scan\<close> produces in main.ts: \<open>initialState\<close>, and every state the reducer
  returns from one of them on an action.
\<close>

inductive reachable :: "State \<Rightarrow> bool" where
  reachable_initial: "initialState = Inr s \<Longrightarrow> reachable s"
| reachable_step: "reachable s \<Longrightarrow> reducer s action = Some (Inr s') \<Longrightarrow> reachable s'"

text \<open>
  What every such state satisfies (\<open>reachable_wellFormed\<close> below): the falling block has
  cells, all inside the board; the rows of the grid have \<open>GRID_WIDTH\<close> cells; the next block
  is a constructor's block; and a falling block tagged \<open>SQUARE\<close> is \<open>squareBlock\<close> moved.
\<close>

definition inBoard :: "FallingBlock \<Rightarrow> bool" where
  "inBoard b =
     (cells b \<noteq> [] \<and>
      list_all (\<lambda>cell. 0 \<le> cx cell \<and> cx cell < CANVAS_WIDTH \<and>
                       0 \<le> cy cell \<and> cy cell < CANVAS_HEIGHT) (cells b))"

definition squareIsSquare :: "FallingBlock \<Rightarrow> bool" where
  "squareIsSquare b = (type b = SQUARE \<longrightarrow> (\<exists>dx dy. b = translated dx dy squareBlock))"

definition wellFormed :: "State \<Rightarrow> bool" where
  "wellFormed s =
     (inBoard (fallingBlock s) \<and>
      squareIsSquare (fallingBlock s) \<and>
      list_all (\<lambda>row. length row = GRID_WIDTH) (placedBlocks s) \<and>
      (\<exists>k. nextBlock s = createFallingBlock k))"

section \<open>Properties of the generator\<close>

lemma roundDouble_small: "\<bar>n\<bar> < 2 ^ 53 \<Longrightarrow> roundDouble n = n"
  by (simp add: roundDouble_def)

lemma bitlen_big:
  assumes "(2::int) ^ 53 \<le> k"
  shows "54 \<le> bitlen k"
proof -
  have "0 < k" using assms by simp
  then have "k < 2 ^ nat (bitlen k)" using bitlen_bounds by blast
  with assms have "(2::int) ^ 53 < 2 ^ nat (bitlen k)" by linarith
  then have "53 < nat (bitlen k)" by (simp only: power_strict_increasing_iff [of "2::int"])
  then show ?thesis by linarith
qed

lemma roundDouble_big:
  assumes "2 ^ 53 \<le> n"
  shows "even (roundDouble n) \<and> 2 ^ 53 \<le> roundDouble n"
proof -
  define e where "e = nat (bitlen n - 53)"
  define q where "q = n div 2 ^ e"
  define q' where "q' = (if n mod 2 ^ e < 2 ^ (e - 1) \<or> (n mod 2 ^ e = 2 ^ (e - 1) \<and> even q) then q else q + 1)"
  have n0: "0 < n" using assms by simp
  have e1: "1 \<le> e" using bitlen_big [OF assms] by (simp add: e_def)
  have rd: "roundDouble n = q' * 2 ^ e"
    using assms n0 by (simp add: roundDouble_def Let_def e_def q_def q'_def)
  have "2 ^ nat (bitlen n - 1) \<le> n" using bitlen_bounds n0 by blast
  moreover have "nat (bitlen n - 1) = 52 + e" using bitlen_big [OF assms] by (simp add: e_def)
  ultimately have "(2::int) ^ 52 * 2 ^ e \<le> n" by (simp add: power_add)
  then have "(2::int) ^ 52 * 2 ^ e div 2 ^ e \<le> n div 2 ^ e" by (rule zdiv_mono1) simp
  then have "(2::int) ^ 52 \<le> q" by (simp add: q_def)
  then have q52: "(2::int) ^ 52 \<le> q'" by (simp add: q'_def)
  have p2: "(2::int) ^ 1 \<le> 2 ^ e" using e1 by (intro power_increasing) simp_all
  have "(2::int) ^ 52 * 2 ^ 1 \<le> q' * 2 ^ e"
    by (rule mult_mono) (use q52 p2 in \<open>simp_all\<close>)
  moreover have "even (q' * 2 ^ e)" using e1 by simp
  ultimately show ?thesis by (simp add: rd)
qed

lemma lcg_preimage:
  assumes "(1738123921 * s + 15959) mod 2147483648 = (2147483647::int)"
  shows "s mod 2147483648 = 181070632"
proof -
  define t where "t = 1738123921 * s + 15959"
  have "(560944753 * (t mod 2147483648)) mod 2147483648 = (560944753 * t) mod 2147483648"
    by (rule mod_mult_right_eq)
  moreover have "t mod 2147483648 = 2147483647" using assms by (simp add: t_def)
  ultimately have A: "(560944753 * t) mod 2147483648 = 1586538895"
    by simp
  have B: "560944753 * t = (s + 8952117313127) + 2147483648 * (454015794 * s)"
    by (simp add: t_def)
  have C: "(s + 8952117313127) mod 2147483648 = 1586538895"
    using A unfolding B by (simp only: mod_mult_self2)
  have "((s + 8952117313127) mod 2147483648 - 8952117313127) mod 2147483648
             = (s + 8952117313127 - 8952117313127) mod 2147483648"
    by (rule mod_diff_left_eq)
  then show ?thesis unfolding C by simp
qed

lemma hash_nonneg_arg:
  assumes "0 \<le> seed"
  shows "hash seed = roundDouble (roundDouble (RNG_a * seed) + RNG_c) mod RNG_m
         \<and> 0 \<le> roundDouble (roundDouble (RNG_a * seed) + RNG_c)"
proof -
  define p where "p = RNG_a * seed"
  have p0: "0 \<le> p" using assms by (simp add: p_def RNG_a_def)
  have r0: "0 \<le> roundDouble p"
  proof (cases "p < 2 ^ 53")
    case True
    then show ?thesis using p0 by (simp add: roundDouble_small)
  next
    case False
    then have "2 ^ 53 \<le> p" by simp
    from roundDouble_big [OF this] show ?thesis by simp
  qed
  define t where "t = roundDouble p + RNG_c"
  have t0: "0 \<le> t" using r0 by (simp add: t_def RNG_c_def)
  have rt0: "0 \<le> roundDouble t"
  proof (cases "t < 2 ^ 53")
    case True
    then show ?thesis using t0 by (simp add: roundDouble_small)
  next
    case False
    then have "2 ^ 53 \<le> t" by simp
    from roundDouble_big [OF this] show ?thesis by simp
  qed
  have "jsRem (roundDouble t) RNG_m = roundDouble t mod RNG_m"
    using rt0 by (cases "roundDouble t = 0") (simp_all add: jsRem_def RNG_m_def)
  then show ?thesis using rt0 by (simp add: hash_def p_def t_def)
qed

lemma hash_range:
  assumes "0 \<le> seed"
  shows "0 \<le> hash seed \<and> hash seed < RNG_m - 1"
proof -
  define p where "p = RNG_a * seed"
  define t where "t = roundDouble p + RNG_c"
  have h: "hash seed = roundDouble t mod RNG_m"
    using hash_nonneg_arg [OF assms] by (simp add: p_def t_def)
  have p0: "0 \<le> p" using assms by (simp add: p_def RNG_a_def)
  have lo: "0 \<le> hash seed" and hi: "hash seed < RNG_m"
    by (simp_all add: h RNG_m_def)
  have "hash seed \<noteq> RNG_m - 1"
  proof (cases "p + RNG_c < 2 ^ 53")
    case True
    then have ps: "\<bar>p\<bar> < 2 ^ 53" using p0 by (simp add: RNG_c_def)
    then have tp: "t = p + RNG_c" by (simp add: t_def roundDouble_small)
    then have "\<bar>t\<bar> < 2 ^ 53" using True p0 by (simp add: RNG_c_def)
    then have ht: "hash seed = (RNG_a * seed + RNG_c) mod RNG_m"
      by (simp add: h roundDouble_small tp p_def)
    show ?thesis
    proof
      assume "hash seed = RNG_m - 1"
      then have "(1738123921 * seed + 15959) mod 2147483648 = (2147483647::int)"
        by (simp add: ht RNG_a_def RNG_c_def RNG_m_def)
      then have "seed mod 2147483648 = 181070632" by (rule lcg_preimage)
      moreover have "seed mod 2147483648 \<le> seed" using assms by (simp add: zmod_le_nonneg_dividend)
      ultimately have "181070632 \<le> seed" by simp
      then have "1738123921 * 181070632 \<le> RNG_a * seed" by (simp add: RNG_a_def)
      then show False using True by (simp add: p_def RNG_c_def)
    qed
  next
    case False
    have "2 ^ 53 \<le> t"
    proof (cases "p < 2 ^ 53")
      case True
      then have "roundDouble p = p" using p0 by (simp add: roundDouble_small)
      then show ?thesis using False by (simp add: t_def)
    next
      case False
      then have "2 ^ 53 \<le> p" by simp
      from roundDouble_big [OF this] show ?thesis by (simp add: t_def RNG_c_def)
    qed
    from roundDouble_big [OF this] have "even (roundDouble t)" by simp
    then have "even (hash seed)" by (simp add: h RNG_m_def dvd_mod_iff)
    moreover have "odd (RNG_m - 1)" by (simp add: RNG_m_def)
    ultimately show ?thesis by metis
  qed
  then show ?thesis using lo hi by simp
qed

lemma scale_range:
  assumes "0 \<le> h" and "h < RNG_m - 1"
  shows "0 \<le> scale h \<and> scale h < 1"
  using assms by (simp add: scale_def RNG_m_def)

lemma randomIndexOf_range:
  assumes "0 \<le> seed" and "0 < n"
  shows "0 \<le> randomIndexOf seed n \<and> randomIndexOf seed n < n"
proof -
  have hr: "0 \<le> hash seed" "hash seed < RNG_m - 1"
    using hash_range [OF assms(1)] by simp_all
  then have sc: "0 \<le> scale (hash seed)" "scale (hash seed) < 1"
    using scale_range by simp_all
  have n0: "(0::rat) < of_int n" using assms(2) by simp
  have "scale (hash seed) * of_int n < 1 * of_int n"
    using sc(2) n0 by (rule mult_strict_right_mono)
  then have "randomIndexOf seed n < n"
    by (simp add: randomIndexOf_def floor_less_iff)
  moreover have "0 \<le> scale (hash seed) * of_int n"
    using sc(1) n0 by simp
  then have "0 \<le> randomIndexOf seed n"
    by (simp add: randomIndexOf_def)
  ultimately show ?thesis by simp
qed

lemma type_createFallingBlock: "type (createFallingBlock t) = t"
  by (cases t)
     (simp_all add: createFallingBlock_def squareBlock_def lShapeBlock1_def lShapeBlock2_def
        tShapeBlock_def zShapeBlock1_def zShapeBlock2_def lineBlock_def)

lemma drawFromBag_nonempty:
  assumes "0 \<le> seed" and "bag \<noteq> []" and "None \<notin> set bag"
  shows "\<exists>t. bag ! nat (randomIndexOf seed (int (length bag))) = Some t \<and>
             drawFromBag seed bag =
               Inr \<lparr>drawnBlock = createFallingBlock t, newSeed = hash seed,
                    newBag = take (nat (randomIndexOf seed (int (length bag)))) bag
                             @ drop (Suc (nat (randomIndexOf seed (int (length bag))))) bag\<rparr>"
proof -
  define i where "i = randomIndexOf seed (int (length bag))"
  have "0 < int (length bag)" using assms(2) by simp
  from randomIndexOf_range [OF assms(1) this]
  have ir: "0 \<le> i" "i < int (length bag)" by (simp_all add: i_def)
  then have "nat i < length bag" by simp
  then have "bag ! nat i \<in> set bag" by (rule nth_mem)
  with assms(3) obtain t where t: "bag ! nat i = Some t" by (cases "bag ! nat i") auto
  have "lookupBag bag i = Some t" using ir t by (simp add: lookupBag_def lookup_def)
  then have "drawFromBag seed bag =
               Inr \<lparr>drawnBlock = createFallingBlock t, newSeed = hash seed,
                    newBag = take (nat i) bag @ drop (Suc (nat i)) bag\<rparr>"
    using assms(2) by (simp add: drawFromBag_def Let_def i_def)
  with t show ?thesis unfolding i_def by blast
qed

section \<open>Properties of the bag\<close>

lemma lookupBag_in_range:
  "0 \<le> i \<Longrightarrow> i < int (length bag) \<Longrightarrow> lookupBag bag i = bag ! nat i"
  by (simp add: lookupBag_def lookup_def)

lemma shuffleStep_fst: "fst (shuffleStep sa i) = hash (fst sa)"
  by (simp add: shuffleStep_def Let_def)

lemma shuffleStep_length: "length (snd (shuffleStep sa i)) = length (snd sa)"
  by (simp add: shuffleStep_def Let_def)

lemma shuffleStep_swap:
  assumes "0 \<le> fst sa" and "i < length (snd sa)"
  shows "\<exists>j k. j < length (snd sa) \<and> k < length (snd sa) \<and>
           snd (shuffleStep sa i) = (snd sa)[j := snd sa ! k, k := snd sa ! j]"
proof -
  define acc where "acc = snd sa"
  define remaining where "remaining = int (length acc) - int i"
  define r where "r = randomIndexOf (fst sa) remaining"
  have rem: "0 < remaining" "remaining \<le> int (length acc)"
    using assms(2) by (simp_all add: remaining_def acc_def)
  from randomIndexOf_range [OF assms(1) rem(1)]
  have rr: "0 \<le> r" "r < remaining" by (simp_all add: r_def)
  define j where "j = nat r"
  define k where "k = nat (remaining - 1)"
  have jk: "j < length acc" "k < length acc" using rr rem by (simp_all add: j_def k_def)
  have ij: "int j = r" "int k = remaining - 1" using rr rem by (simp_all add: j_def k_def)
  have "snd (shuffleStep sa i) =
          map (\<lambda>index. if int index = remaining - 1 then lookupBag acc r
                        else if int index = r then lookupBag acc (remaining - 1)
                        else acc ! index) [0 ..< length acc]"
    by (simp add: shuffleStep_def Let_def acc_def remaining_def r_def)
  also have "\<dots> = acc[j := acc ! k, k := acc ! j]"
  proof (rule nth_equalityI)
    show "length (map (\<lambda>index. if int index = remaining - 1 then lookupBag acc r
                        else if int index = r then lookupBag acc (remaining - 1)
                        else acc ! index) [0 ..< length acc]) = length (acc[j := acc ! k, k := acc ! j])"
      by simp
  next
    fix n
    assume "n < length (map (\<lambda>index. if int index = remaining - 1 then lookupBag acc r
                        else if int index = r then lookupBag acc (remaining - 1)
                        else acc ! index) [0 ..< length acc])"
    then have n: "n < length acc" by simp
    have l1: "lookupBag acc r = acc ! j"
      using rr rem by (simp add: lookupBag_in_range j_def)
    have l2: "lookupBag acc (remaining - 1) = acc ! k"
      using rem by (simp add: lookupBag_in_range k_def)
    have e1: "(int n = remaining - 1) = (n = k)" using ij by auto
    have e2: "(int n = r) = (n = j)" using ij by auto
    show "map (\<lambda>index. if int index = remaining - 1 then lookupBag acc r
                        else if int index = r then lookupBag acc (remaining - 1)
                        else acc ! index) [0 ..< length acc] ! n = acc[j := acc ! k, k := acc ! j] ! n"
      using n jk by (simp add: l1 l2 e1 e2 nth_list_update)
  qed
  finally show ?thesis using jk unfolding acc_def by blast
qed

lemma shuffleStep_mset:
  assumes "0 \<le> fst sa" and "i < length (snd sa)"
  shows "mset (snd (shuffleStep sa i)) = mset (snd sa)"
proof -
  from shuffleStep_swap [OF assms] obtain j k where
    "j < length (snd sa)" "k < length (snd sa)"
    "snd (shuffleStep sa i) = (snd sa)[j := snd sa ! k, k := snd sa ! j]" by blast
  then show ?thesis by (simp add: mset_swap)
qed

lemma foldl_shuffleStep_length:
  "length (snd (foldl shuffleStep sa is)) = length (snd sa)"
  by (induction "is" arbitrary: sa) (simp_all add: shuffleStep_length)

lemma foldl_shuffleStep_mset:
  assumes "0 \<le> fst sa" and "\<forall>i \<in> set is. i < length (snd sa)"
  shows "mset (snd (foldl shuffleStep sa is)) = mset (snd sa)"
  using assms
proof (induction "is" arbitrary: sa)
  case Nil
  then show ?case by simp
next
  case (Cons i "is")
  have i: "i < length (snd sa)" using Cons.prems(2) by simp
  have "0 \<le> hash (fst sa)" using hash_range [OF Cons.prems(1)] by simp
  then have s: "0 \<le> fst (shuffleStep sa i)" by (simp add: shuffleStep_fst)
  have "\<forall>i' \<in> set is. i' < length (snd (shuffleStep sa i))"
    using Cons.prems(2) by (simp add: shuffleStep_length)
  from Cons.IH [OF s this] show ?case
    by (simp add: shuffleStep_mset [OF Cons.prems(1) i])
qed

lemma length_shuffleBag: "length (shuffleBag seed) = 7"
  by (simp add: shuffleBag_def foldl_shuffleStep_length) (simp add: blockTypes_def)

lemma mset_shuffleBag:
  assumes "0 \<le> seed"
  shows "mset (shuffleBag seed) = mset blockTypes"
proof -
  have "mset (snd (foldl shuffleStep (seed, blockTypes) [0 ..< length blockTypes]))
        = mset (snd (seed, blockTypes))"
    by (rule foldl_shuffleStep_mset) (use assms in simp_all)
  then show ?thesis by (simp add: shuffleBag_def)
qed

lemma count_blockTypes: "count (mset blockTypes) (Some k) = 1"
  by (cases k) (simp_all add: blockTypes_def)

lemma drawFromBag_returns:
  assumes "0 \<le> seed" and "None \<notin> set bag"
  shows "\<exists>d. drawFromBag seed bag = Inr d \<and> 0 \<le> newSeed d \<and> newSeed d < 2 ^ 31 \<and>
             None \<notin> set (newBag d)"
proof -
  define seed1 where "seed1 = (if bag = [] then hash seed else seed)"
  define bag1 where "bag1 = (if bag = [] then shuffleBag seed else bag)"
  have sne: "shuffleBag seed \<noteq> []" using length_shuffleBag [of seed] by auto
  have eq: "drawFromBag seed bag = drawFromBag seed1 bag1"
    by (cases "bag = []") (simp_all add: seed1_def bag1_def drawFromBag_def sne)
  have s1: "0 \<le> seed1" using assms(1) hash_range [OF assms(1)] by (simp add: seed1_def)
  have "set (shuffleBag seed) = set blockTypes"
    using mset_shuffleBag [OF assms(1)] by (rule mset_eq_setD)
  then have "None \<notin> set (shuffleBag seed)" by (auto simp add: blockTypes_def)
  then have n1: "None \<notin> set bag1" using assms(2) by (simp add: bag1_def)
  have ne: "bag1 \<noteq> []" using sne by (simp add: bag1_def)
  from drawFromBag_nonempty [OF s1 ne n1] obtain t where
    d: "drawFromBag seed1 bag1 =
          Inr \<lparr>drawnBlock = createFallingBlock t, newSeed = hash seed1,
               newBag = take (nat (randomIndexOf seed1 (int (length bag1)))) bag1
                        @ drop (Suc (nat (randomIndexOf seed1 (int (length bag1))))) bag1\<rparr>"
    by blast
  have h: "0 \<le> hash seed1" "hash seed1 < 2 ^ 31"
    using hash_range [OF s1] by (simp_all add: RNG_m_def)
  have "set (take (nat (randomIndexOf seed1 (int (length bag1)))) bag1
             @ drop (Suc (nat (randomIndexOf seed1 (int (length bag1))))) bag1) \<subseteq> set bag1"
    using set_take_subset [of _ bag1] set_drop_subset [of _ bag1] by auto
  then have "None \<notin> set (take (nat (randomIndexOf seed1 (int (length bag1)))) bag1
             @ drop (Suc (nat (randomIndexOf seed1 (int (length bag1))))) bag1)"
    using n1 by blast
  then show ?thesis using h by (simp add: eq d)
qed

text \<open>
  The one seed at which exact integer arithmetic would give the hash \<open>m - 1\<close>: the product
  has 59 bits, binary64 keeps 53 of them, and the hash JavaScript computes is 0.
\<close>

lemma hash_at_exact_preimage:
  "(RNG_a * 181070632 + RNG_c) mod RNG_m = RNG_m - 1 \<and>
   RNG_a * 181070632 = 314723196869788072 \<and>
   roundDouble (RNG_a * 181070632) = 314723196869788096 \<and>
   roundDouble (314723196869788096 + RNG_c) = 314723196869804032 \<and>
   hash 181070632 = 0"
  by code_simp

lemma scale_margin:
  assumes "0 \<le> h" and "h < RNG_m - 1"
  shows "scale h \<le> 1 - 1 / 2147483647"
proof -
  have "h \<le> 2147483646" using assms(2) by (simp add: RNG_m_def)
  then have "(of_int h :: rat) \<le> 2147483646" by (simp add: of_int_le_numeral_iff)
  then show ?thesis by (simp add: scale_def RNG_m_def field_simps)
qed

text \<open>
  Claim C1. For every seed (a 31-bit unsigned integer), \<open>scale (hash seed)\<close> lies in
  \<open>[0, 1)\<close>; so for every non-empty bag the index \<open>drawFromBag\<close> computes is inside the
  bag and the read is not out of bounds; and for every bag of block types \<open>drawFromBag\<close>
  returns (it reads no \<open>undefined\<close>), with a block whose kind is an element of the bag
  when the bag is not empty. The hash \<open>m - 1\<close>, which would scale to 1, has a single
  preimage modulo \<open>m\<close> under the exact congruence, 181070632, and there the binary64
  product is already rounded to an even number: \<open>hash 181070632 = 0\<close>.
\<close>

theorem drawFromBag_index_in_bounds:
  assumes "0 \<le> seed" and "seed < 2 ^ 31"
  shows "0 \<le> scale (hash seed) \<and> scale (hash seed) < 1 \<and>
         (bag \<noteq> [] \<longrightarrow>
            0 \<le> randomIndexOf seed (int (length bag)) \<and>
            randomIndexOf seed (int (length bag)) < int (length bag) \<and>
            lookup bag (randomIndexOf seed (int (length bag))) \<noteq> None) \<and>
         (None \<notin> set bag \<longrightarrow>
            (\<exists>d. drawFromBag seed bag = Inr d \<and>
                 (bag \<noteq> [] \<longrightarrow> Some (type (drawnBlock d)) \<in> set bag)))"
proof -
  have hr: "0 \<le> hash seed \<and> hash seed < RNG_m - 1" using assms(1) by (rule hash_range)
  then have sc: "0 \<le> scale (hash seed) \<and> scale (hash seed) < 1"
    by (simp add: scale_range)
  have ir: "0 \<le> randomIndexOf seed (int (length bag)) \<and>
            randomIndexOf seed (int (length bag)) < int (length bag) \<and>
            lookup bag (randomIndexOf seed (int (length bag))) \<noteq> None"
    if ne: "bag \<noteq> []"
  proof -
    have "0 < int (length bag)" using ne by simp
    from randomIndexOf_range [OF assms(1) this] show ?thesis by (simp add: lookup_def)
  qed
  have dr: "\<exists>d. drawFromBag seed bag = Inr d \<and>
                 (bag \<noteq> [] \<longrightarrow> Some (type (drawnBlock d)) \<in> set bag)"
    if nn: "None \<notin> set bag"
  proof (cases "bag = []")
    case True
    from drawFromBag_returns [OF assms(1) nn] show ?thesis using True by blast
  next
    case False
    from drawFromBag_nonempty [OF assms(1) False nn] obtain t where
      t: "bag ! nat (randomIndexOf seed (int (length bag))) = Some t" and
      d: "drawFromBag seed bag =
               Inr \<lparr>drawnBlock = createFallingBlock t, newSeed = hash seed,
                    newBag = take (nat (randomIndexOf seed (int (length bag)))) bag
                             @ drop (Suc (nat (randomIndexOf seed (int (length bag))))) bag\<rparr>"
      by blast
    have "nat (randomIndexOf seed (int (length bag))) < length bag"
      using ir [OF False] by linarith
    then have "bag ! nat (randomIndexOf seed (int (length bag))) \<in> set bag" by (rule nth_mem)
    then have "Some t \<in> set bag" by (simp add: t)
    then show ?thesis by (simp add: d type_createFallingBlock)
  qed
  show ?thesis using sc ir dr by blast
qed

theorem drawFromBag_index_in_bounds_witness:
  "(0::int) \<le> 159 \<and> (159::int) < 2 ^ 31 \<and> blockTypes \<noteq> [] \<and> None \<notin> set blockTypes \<and>
   0 \<le> scale (hash 159) \<and> scale (hash 159) < 1 \<and>
   randomIndexOf 159 (int (length blockTypes)) < int (length blockTypes) \<and>
   (\<exists>d. drawFromBag 159 blockTypes = Inr d \<and> Some (type (drawnBlock d)) \<in> set blockTypes)"
proof -
  have a: "(0::int) \<le> 159" and b: "(159::int) < 2 ^ 31" by simp_all
  have c: "blockTypes \<noteq> []" and d: "None \<notin> set blockTypes" by (auto simp add: blockTypes_def)
  note w = drawFromBag_index_in_bounds [OF a b, of blockTypes]
  have w1: "0 \<le> scale (hash 159) \<and> scale (hash 159) < 1" using w by blast
  have w2: "randomIndexOf 159 (int (length blockTypes)) < int (length blockTypes)"
    using w c by blast
  have w3: "\<exists>d. drawFromBag 159 blockTypes = Inr d \<and> Some (type (drawnBlock d)) \<in> set blockTypes"
    using w c d by blast
  show ?thesis using a b c d w1 w2 w3 by blast
qed

text \<open>
  Claim C3. For every seed, \<open>shuffleBag seed\<close> has length 7 and is a permutation of the
  seven block kinds: each kind occurs exactly once, and no element is \<open>undefined\<close>.
\<close>

theorem shuffleBag_permutation:
  assumes "0 \<le> seed" and "seed < 2 ^ 31"
  shows "length (shuffleBag seed) = 7 \<and>
         mset (shuffleBag seed) = mset blockTypes \<and>
         (\<forall>k. count_list (shuffleBag seed) (Some k) = 1) \<and>
         None \<notin> set (shuffleBag seed)"
proof -
  have m: "mset (shuffleBag seed) = mset blockTypes" using assms(1) by (rule mset_shuffleBag)
  have c: "count_list (shuffleBag seed) (Some k) = 1" for k
  proof -
    have "count (mset (shuffleBag seed)) (Some k) = 1" by (simp add: m count_blockTypes)
    then show ?thesis by (simp add: count_mset)
  qed
  have "set (shuffleBag seed) = set blockTypes" using m by (rule mset_eq_setD)
  then have n: "None \<notin> set (shuffleBag seed)" by (auto simp add: blockTypes_def)
  show ?thesis using m c n by (simp add: length_shuffleBag)
qed

theorem shuffleBag_permutation_witness:
  "(0::int) \<le> 159 \<and> (159::int) < 2 ^ 31 \<and> length (shuffleBag 159) = 7 \<and>
   mset (shuffleBag 159) = mset blockTypes \<and> count_list (shuffleBag 159) (Some LINE) = 1"
proof -
  have a: "(0::int) \<le> 159" and b: "(159::int) < 2 ^ 31" by simp_all
  note w = shuffleBag_permutation [OF a b]
  have "count_list (shuffleBag 159) (Some LINE) = 1" using w by blast
  then show ?thesis using a b w by blast
qed

lemma mset_remove_nth:
  assumes "i < length xs"
  shows "add_mset (xs ! i) (mset (take i xs @ drop (Suc i) xs)) = mset xs"
proof -
  have "xs = take i xs @ xs ! i # drop (Suc i) xs" using assms by (rule id_take_nth_drop)
  then have "mset xs = mset (take i xs @ xs ! i # drop (Suc i) xs)" by simp
  then show ?thesis by simp
qed

lemma drawMany_exhausts:
  assumes "0 \<le> seed" and "None \<notin> set bag" and "length bag = n"
  shows "\<exists>ks s'. drawMany n seed bag = Inr (ks, s', []) \<and> mset (map Some ks) = mset bag"
  using assms
proof (induction n arbitrary: seed bag)
  case 0
  then show ?case by simp
next
  case (Suc n)
  have ne: "bag \<noteq> []" using Suc.prems(3) by auto
  define i where "i = nat (randomIndexOf seed (int (length bag)))"
  define bag' where "bag' = take i bag @ drop (Suc i) bag"
  from drawFromBag_nonempty [OF Suc.prems(1) ne Suc.prems(2)] obtain t where
    t: "bag ! i = Some t" and
    d: "drawFromBag seed bag =
          Inr \<lparr>drawnBlock = createFallingBlock t, newSeed = hash seed, newBag = bag'\<rparr>"
    unfolding i_def bag'_def by blast
  have "0 < int (length bag)" using ne by simp
  from randomIndexOf_range [OF Suc.prems(1) this] have il: "i < length bag"
    unfolding i_def by linarith
  have h0: "0 \<le> hash seed" using hash_range [OF Suc.prems(1)] by simp
  have "set bag' \<subseteq> set bag"
    using set_take_subset [of i bag] set_drop_subset [of "Suc i" bag] by (auto simp add: bag'_def)
  then have nn: "None \<notin> set bag'" using Suc.prems(2) by blast
  have len: "length bag' = n" using il Suc.prems(3) by (simp add: bag'_def)
  from Suc.IH [OF h0 nn len] obtain ks s' where
    r: "drawMany n (hash seed) bag' = Inr (ks, s', [])" and
    m: "mset (map Some ks) = mset bag'" by blast
  have "drawMany (Suc n) seed bag = Inr (t # ks, s', [])"
    by (simp add: d r type_createFallingBlock)
  moreover have "mset (map Some (t # ks)) = mset bag"
  proof -
    have "mset (map Some (t # ks)) = add_mset (Some t) (mset (map Some ks))" by simp
    also have "\<dots> = add_mset (bag ! i) (mset (take i bag @ drop (Suc i) bag))"
      by (simp only: m t bag'_def)
    also have "\<dots> = mset bag" by (rule mset_remove_nth [OF il])
    finally show ?thesis .
  qed
  ultimately show ?case by blast
qed

text \<open>
  Claim C4. For every seed and every bag of distinct kinds: a call of \<open>drawFromBag\<close> on a
  non-empty bag draws the element at the computed index and returns the bag without it,
  the other elements in their order; drawing as many times as the bag has elements returns
  (it never fails), empties the bag and draws each of its kinds exactly once; a call on
  the empty bag is a call on \<open>shuffleBag seed\<close> with the seed advanced once by \<open>hash\<close>.
\<close>

theorem drawFromBag_without_replacement:
  assumes "0 \<le> seed" and "seed < 2 ^ 31" and "None \<notin> set bag" and "distinct bag"
  shows "(bag \<noteq> [] \<longrightarrow>
            nat (randomIndexOf seed (int (length bag))) < length bag \<and>
            (\<exists>t. bag ! nat (randomIndexOf seed (int (length bag))) = Some t \<and>
                 drawFromBag seed bag =
                   Inr \<lparr>drawnBlock = createFallingBlock t, newSeed = hash seed,
                        newBag = take (nat (randomIndexOf seed (int (length bag)))) bag
                               @ drop (Suc (nat (randomIndexOf seed (int (length bag))))) bag\<rparr>)) \<and>
         (\<exists>ks s'. drawMany (length bag) seed bag = Inr (ks, s', []) \<and>
                   distinct ks \<and> mset (map Some ks) = mset bag) \<and>
         drawFromBag seed [] = drawFromBag (hash seed) (shuffleBag seed)"
proof -
  have one: "nat (randomIndexOf seed (int (length bag))) < length bag \<and>
            (\<exists>t. bag ! nat (randomIndexOf seed (int (length bag))) = Some t \<and>
                 drawFromBag seed bag =
                   Inr \<lparr>drawnBlock = createFallingBlock t, newSeed = hash seed,
                        newBag = take (nat (randomIndexOf seed (int (length bag)))) bag
                               @ drop (Suc (nat (randomIndexOf seed (int (length bag))))) bag\<rparr>)"
    if ne: "bag \<noteq> []"
  proof -
    have "0 < int (length bag)" using ne by simp
    from randomIndexOf_range [OF assms(1) this]
    have "nat (randomIndexOf seed (int (length bag))) < length bag" by linarith
    then show ?thesis using drawFromBag_nonempty [OF assms(1) ne assms(3)] by blast
  qed
  from drawMany_exhausts [OF assms(1) assms(3) refl] obtain ks s' where
    r: "drawMany (length bag) seed bag = Inr (ks, s', [])" and
    m: "mset (map Some ks) = mset bag" by blast
  from mset_eq_imp_distinct_iff [OF m] assms(4) have dk: "distinct ks"
    by (simp add: distinct_map)
  have two: "\<exists>ks s'. drawMany (length bag) seed bag = Inr (ks, s', []) \<and>
                   distinct ks \<and> mset (map Some ks) = mset bag"
    using r m dk by blast
  have three: "drawFromBag seed [] = drawFromBag (hash seed) (shuffleBag seed)"
    by (simp add: drawFromBag_def length_shuffleBag)
  show ?thesis using one two three by blast
qed

theorem drawFromBag_without_replacement_witness:
  "(0::int) \<le> 159 \<and> (159::int) < 2 ^ 31 \<and> None \<notin> set blockTypes \<and> distinct blockTypes \<and>
   blockTypes \<noteq> [] \<and>
   (\<exists>ks s'. drawMany (length blockTypes) 159 blockTypes = Inr (ks, s', []) \<and>
             distinct ks \<and> mset (map Some ks) = mset blockTypes) \<and>
   drawFromBag 159 [] = drawFromBag (hash 159) (shuffleBag 159)"
proof -
  have a: "(0::int) \<le> 159" and b: "(159::int) < 2 ^ 31" by simp_all
  have c: "None \<notin> set blockTypes" and d: "distinct blockTypes" and e: "blockTypes \<noteq> []"
    by (auto simp add: blockTypes_def)
  note w = drawFromBag_without_replacement [OF a b c d, THEN conjunct2]
  show ?thesis
    by (intro conjI a b c d e w [THEN conjunct1] w [THEN conjunct2])
qed

section \<open>Locking, line clearing and hold\<close>

lemma initialState_value: "initialState = Inr initialStateValue"
  by code_simp

lemma length_filter_eq_iff: "(length (filter P xs) = length xs) = list_all P xs"
proof (cases "list_all P xs")
  case True
  then have "filter P xs = xs" by (simp add: list_all_iff)
  then show ?thesis using True by simp
next
  case False
  then obtain x where "x \<in> set xs" "\<not> P x" by (auto simp add: list_all_iff)
  then have "length (filter P xs) < length xs" by (rule length_filter_less)
  then show ?thesis using False by simp
qed

lemma clearFullRows_grid_score:
  "placedBlocks (clearFullRows s) =
     replicate (length (filter (list_all placed) (placedBlocks s))) (replicate GRID_WIDTH emptyCell)
     @ filter (\<lambda>row. \<not> list_all placed row) (placedBlocks s) \<and>
   score (clearFullRows s) =
     score s + int (length (filter (list_all placed) (placedBlocks s))) * 100"
proof -
  define g where "g = placedBlocks s"
  have f: "filter (\<lambda>row. length (filter (\<lambda>cell. placed cell) row) \<noteq> length row) g
           = filter (\<lambda>row. \<not> list_all placed row) g"
    by (simp add: length_filter_eq_iff)
  have "length g = length (filter (list_all placed) g)
                   + length (filter (\<lambda>row. \<not> list_all placed row) g)"
    by (simp add: sum_length_filter_compl)
  then have k: "length g - length (filter (\<lambda>row. \<not> list_all placed row) g)
                = length (filter (list_all placed) g)"
    by simp
  show ?thesis
    unfolding clearFullRows_def Let_def g_def [symmetric] f k by simp
qed

lemma handleBlockLocking_Inr:
  assumes "handleBlockLocking s = Inr s'"
  obtains g d where
    "stampCells (colour (fallingBlock s)) (placedBlocks s) (cells (fallingBlock s)) = Inr g"
    "drawFromBag (currentSeed s) (currentBag s) = Inr d"
    "s' = clearFullRows
            (s\<lparr>gameEnd := list_ex (\<lambda>cell. cy cell div Block_HEIGHT = 0) (cells (fallingBlock s)),
               fallingBlock := nextBlock s,
               placedBlocks := g,
               nextBlock := drawnBlock d,
               blockHeldDuringFall := False,
               currentSeed := newSeed d,
               currentBag := newBag d\<rparr>)"
  using assms by (auto simp add: handleBlockLocking_def Let_def split: sum.splits)

text \<open>
  Claim C6. The line-clear step removes exactly the rows that are entirely placed, say
  \<open>k\<close> of them, puts \<open>k\<close> empty rows on top of the remaining rows, which keep their
  order, and adds \<open>k * 100\<close> to the score; rows that are not entirely placed stay. When
  \<open>handleBlockLocking\<close> returns, its result is this step on the grid with the falling
  block stamped in.
\<close>

theorem line_clear_rows_and_score:
  "placedBlocks (clearFullRows s) =
     replicate (length (filter (list_all placed) (placedBlocks s))) (replicate GRID_WIDTH emptyCell)
     @ filter (\<lambda>row. \<not> list_all placed row) (placedBlocks s) \<and>
   score (clearFullRows s) =
     score s + int (length (filter (list_all placed) (placedBlocks s))) * 100 \<and>
   (handleBlockLocking s = Inr s' \<longrightarrow>
      (\<exists>g. stampCells (colour (fallingBlock s)) (placedBlocks s) (cells (fallingBlock s)) = Inr g \<and>
           placedBlocks s' =
             replicate (length (filter (list_all placed) g)) (replicate GRID_WIDTH emptyCell)
             @ filter (\<lambda>row. \<not> list_all placed row) g \<and>
           score s' = score s + int (length (filter (list_all placed) g)) * 100))"
proof -
  have "\<exists>g. stampCells (colour (fallingBlock s)) (placedBlocks s) (cells (fallingBlock s)) = Inr g \<and>
           placedBlocks s' =
             replicate (length (filter (list_all placed) g)) (replicate GRID_WIDTH emptyCell)
             @ filter (\<lambda>row. \<not> list_all placed row) g \<and>
           score s' = score s + int (length (filter (list_all placed) g)) * 100"
    if lock: "handleBlockLocking s = Inr s'"
  proof (rule handleBlockLocking_Inr [OF lock])
    fix g d
    assume g: "stampCells (colour (fallingBlock s)) (placedBlocks s) (cells (fallingBlock s)) = Inr g"
    assume s': "s' = clearFullRows
            (s\<lparr>gameEnd := list_ex (\<lambda>cell. cy cell div Block_HEIGHT = 0) (cells (fallingBlock s)),
               fallingBlock := nextBlock s,
               placedBlocks := g,
               nextBlock := drawnBlock d,
               blockHeldDuringFall := False,
               currentSeed := newSeed d,
               currentBag := newBag d\<rparr>)"
    have "placedBlocks s' =
             replicate (length (filter (list_all placed) g)) (replicate GRID_WIDTH emptyCell)
             @ filter (\<lambda>row. \<not> list_all placed row) g \<and>
          score s' = score s + int (length (filter (list_all placed) g)) * 100"
      unfolding s' by (simp add: clearFullRows_grid_score)
    with g show ?thesis by blast
  qed
  then show ?thesis using clearFullRows_grid_score [of s] by blast
qed

lemma landedState_locks: "\<not> isl (handleBlockLocking landedState)"
  by code_simp

lemma landedState_score: "score (projr (handleBlockLocking landedState)) = 100"
  by code_simp

lemma landedState_grid: "placedBlocks (projr (handleBlockLocking landedState)) = emptyGrid"
  by code_simp

theorem line_clear_rows_and_score_witness:
  "\<exists>s' g. handleBlockLocking landedState = Inr s' \<and>
     stampCells (colour (fallingBlock landedState)) (placedBlocks landedState)
       (cells (fallingBlock landedState)) = Inr g \<and>
     length (filter (list_all placed) g) = 1 \<and>
     placedBlocks s' = replicate 1 (replicate GRID_WIDTH emptyCell)
                       @ filter (\<lambda>row. \<not> list_all placed row) g \<and>
     score s' = score landedState + 100"
proof -
  obtain s' where s': "handleBlockLocking landedState = Inr s'"
    using landedState_locks by (cases "handleBlockLocking landedState") auto
  from line_clear_rows_and_score [of landedState s'] s' obtain g where
    g: "stampCells (colour (fallingBlock landedState)) (placedBlocks landedState)
          (cells (fallingBlock landedState)) = Inr g" and
    p: "placedBlocks s' =
          replicate (length (filter (list_all placed) g)) (replicate GRID_WIDTH emptyCell)
          @ filter (\<lambda>row. \<not> list_all placed row) g" and
    sc: "score s' = score landedState + int (length (filter (list_all placed) g)) * 100"
    by blast
  have "score s' = 100" using landedState_score by (simp add: s')
  moreover have "score landedState = 0" by code_simp
  ultimately have k: "length (filter (list_all placed) g) = 1" using sc by simp
  show ?thesis using s' g p sc k by auto
qed

lemma holdBlock_sets_gate:
  assumes "holdBlock s = Inr s'"
  shows "blockHeldDuringFall s'"
  using assms by (auto simp add: holdBlock_def Let_def split: if_splits sum.splits)

lemma clearFullRows_gate: "blockHeldDuringFall (clearFullRows s) = blockHeldDuringFall s"
  by (simp add: clearFullRows_def Let_def)

text \<open>
  Claim C8. With \<open>blockHeldDuringFall\<close> set, \<open>holdBlock\<close> returns the state unchanged; a
  state returned by \<open>holdBlock\<close> has the flag set, so a second \<open>holdBlock\<close> does nothing;
  and every state returned by \<open>handleBlockLocking\<close> has the flag cleared.
\<close>

theorem hold_once_per_piece:
  "(blockHeldDuringFall s \<longrightarrow> holdBlock s = Inr s) \<and>
   (holdBlock s = Inr s1 \<longrightarrow> holdBlock s1 = Inr s1) \<and>
   (handleBlockLocking s = Inr s2 \<longrightarrow> \<not> blockHeldDuringFall s2)"
proof -
  have one: "holdBlock t = Inr t" if "blockHeldDuringFall t" for t
    using that by (simp add: holdBlock_def)
  have two: "holdBlock s1 = Inr s1" if "holdBlock s = Inr s1"
    using holdBlock_sets_gate [OF that] by (rule one)
  have three: "\<not> blockHeldDuringFall s2" if lock: "handleBlockLocking s = Inr s2"
    by (rule handleBlockLocking_Inr [OF lock]) (simp add: clearFullRows_gate)
  show ?thesis using one two three by blast
qed

lemma landedState_hold: "\<not> isl (holdBlock landedState)"
  by code_simp

lemma landedState_hold_lock: "\<not> isl (handleBlockLocking (projr (holdBlock landedState)))"
  by code_simp

theorem hold_once_per_piece_witness:
  "\<exists>s1 s2. holdBlock landedState = Inr s1 \<and> blockHeldDuringFall s1 \<and> holdBlock s1 = Inr s1 \<and>
           handleBlockLocking s1 = Inr s2 \<and> \<not> blockHeldDuringFall s2"
proof -
  obtain s1 where s1: "holdBlock landedState = Inr s1"
    using landedState_hold by (cases "holdBlock landedState") auto
  obtain s2 where s2: "handleBlockLocking s1 = Inr s2"
    using landedState_hold_lock by (cases "handleBlockLocking s1") (auto simp add: s1)
  have a: "holdBlock s1 = Inr s1" using hold_once_per_piece [of landedState s1] s1 by blast
  have b: "\<not> blockHeldDuringFall s2" using hold_once_per_piece [of s1 s1 s2] s2 by blast
  have c: "blockHeldDuringFall s1"
  proof (rule ccontr)
    assume "\<not> blockHeldDuringFall s1"
    moreover have "blockHeldDuringFall (projr (holdBlock landedState))" by code_simp
    ultimately show False by (simp add: s1)
  qed
  show ?thesis using s1 s2 a b c by blast
qed

lemma blockConfigurations_table:
  "blockConfigurations k =
     (case k of SQUARE \<Rightarrow> squareBlock | L_SHAPE1 \<Rightarrow> lShapeBlock1 | L_SHAPE2 \<Rightarrow> lShapeBlock2
      | T_SHAPE \<Rightarrow> tShapeBlock | LINE \<Rightarrow> lineBlock | Z_SHAPE1 \<Rightarrow> zShapeBlock1
      | Z_SHAPE2 \<Rightarrow> zShapeBlock2)"
  by (cases k) simp_all

lemma atSpawnAnchor_createFallingBlock: "atSpawnAnchor (createFallingBlock k)"
  by (cases k)
     (simp_all add: createFallingBlock_def atSpawnAnchor_def squareBlock_def lShapeBlock1_def
        lShapeBlock2_def tShapeBlock_def zShapeBlock1_def zShapeBlock2_def lineBlock_def
        CANVAS_WIDTH_def CANVAS_HEIGHT_def GRID_WIDTH_def GRID_HEIGHT_def Block_WIDTH_def
        Block_HEIGHT_def)

lemma holdBlock_performed:
  assumes "\<not> blockHeldDuringFall s" and "holdBlock s = Inr s'"
  shows "fallingBlock s' =
           createFallingBlock (case heldBlock s of Some h \<Rightarrow> type h | None \<Rightarrow> type (nextBlock s)) \<and>
         heldBlock s' = Some (createFallingBlock (type (fallingBlock s))) \<and>
         blockHeldDuringFall s'"
  using assms by (auto simp add: holdBlock_def Let_def split: sum.splits if_splits)

text \<open>
  Claim C10. When \<open>holdBlock\<close> performs a hold (\<open>blockHeldDuringFall\<close> not set), the new
  falling block is the block its kind's constructor builds, for the held kind, or for the
  next block's kind when nothing was held: it has that kind and lies at the spawn anchor.
  The held block is the block the constructor builds for the kind of the previously
  falling block: it has that kind and lies at the spawn anchor, whatever position the
  falling block had reached. The hold returns whenever a block was held, or the seed and
  bag are well formed.
\<close>

theorem hold_rebuilds_at_spawn:
  assumes "\<not> blockHeldDuringFall s"
  shows "(holdBlock s = Inr s' \<longrightarrow>
            fallingBlock s' =
              (case (case heldBlock s of Some h \<Rightarrow> type h | None \<Rightarrow> type (nextBlock s)) of
                 SQUARE \<Rightarrow> squareBlock | L_SHAPE1 \<Rightarrow> lShapeBlock1 | L_SHAPE2 \<Rightarrow> lShapeBlock2
               | T_SHAPE \<Rightarrow> tShapeBlock | LINE \<Rightarrow> lineBlock | Z_SHAPE1 \<Rightarrow> zShapeBlock1
               | Z_SHAPE2 \<Rightarrow> zShapeBlock2) \<and>
            type (fallingBlock s') =
              (case heldBlock s of Some h \<Rightarrow> type h | None \<Rightarrow> type (nextBlock s)) \<and>
            atSpawnAnchor (fallingBlock s') \<and>
            heldBlock s' =
              Some (case type (fallingBlock s) of
                      SQUARE \<Rightarrow> squareBlock | L_SHAPE1 \<Rightarrow> lShapeBlock1 | L_SHAPE2 \<Rightarrow> lShapeBlock2
                    | T_SHAPE \<Rightarrow> tShapeBlock | LINE \<Rightarrow> lineBlock | Z_SHAPE1 \<Rightarrow> zShapeBlock1
                    | Z_SHAPE2 \<Rightarrow> zShapeBlock2) \<and>
            map_option type (heldBlock s') = Some (type (fallingBlock s)) \<and>
            map_option atSpawnAnchor (heldBlock s') = Some True) \<and>
         (heldBlock s \<noteq> None \<or>
            (0 \<le> currentSeed s \<and> currentSeed s < 2 ^ 31 \<and> None \<notin> set (currentBag s))
          \<longrightarrow> (\<exists>t. holdBlock s = Inr t))"
proof -
  have one: "fallingBlock s' =
              (case (case heldBlock s of Some h \<Rightarrow> type h | None \<Rightarrow> type (nextBlock s)) of
                 SQUARE \<Rightarrow> squareBlock | L_SHAPE1 \<Rightarrow> lShapeBlock1 | L_SHAPE2 \<Rightarrow> lShapeBlock2
               | T_SHAPE \<Rightarrow> tShapeBlock | LINE \<Rightarrow> lineBlock | Z_SHAPE1 \<Rightarrow> zShapeBlock1
               | Z_SHAPE2 \<Rightarrow> zShapeBlock2) \<and>
            type (fallingBlock s') =
              (case heldBlock s of Some h \<Rightarrow> type h | None \<Rightarrow> type (nextBlock s)) \<and>
            atSpawnAnchor (fallingBlock s') \<and>
            heldBlock s' =
              Some (case type (fallingBlock s) of
                      SQUARE \<Rightarrow> squareBlock | L_SHAPE1 \<Rightarrow> lShapeBlock1 | L_SHAPE2 \<Rightarrow> lShapeBlock2
                    | T_SHAPE \<Rightarrow> tShapeBlock | LINE \<Rightarrow> lineBlock | Z_SHAPE1 \<Rightarrow> zShapeBlock1
                    | Z_SHAPE2 \<Rightarrow> zShapeBlock2) \<and>
            map_option type (heldBlock s') = Some (type (fallingBlock s)) \<and>
            map_option atSpawnAnchor (heldBlock s') = Some True"
    if h: "holdBlock s = Inr s'"
  proof -
    from holdBlock_performed [OF assms h] have
      f: "fallingBlock s' =
           createFallingBlock (case heldBlock s of Some h \<Rightarrow> type h | None \<Rightarrow> type (nextBlock s))" and
      g: "heldBlock s' = Some (createFallingBlock (type (fallingBlock s)))" by simp_all
    have f1: "fallingBlock s' =
              (case (case heldBlock s of Some h \<Rightarrow> type h | None \<Rightarrow> type (nextBlock s)) of
                 SQUARE \<Rightarrow> squareBlock | L_SHAPE1 \<Rightarrow> lShapeBlock1 | L_SHAPE2 \<Rightarrow> lShapeBlock2
               | T_SHAPE \<Rightarrow> tShapeBlock | LINE \<Rightarrow> lineBlock | Z_SHAPE1 \<Rightarrow> zShapeBlock1
               | Z_SHAPE2 \<Rightarrow> zShapeBlock2)"
      unfolding f createFallingBlock_def by (rule blockConfigurations_table)
    have f2: "type (fallingBlock s') =
              (case heldBlock s of Some h \<Rightarrow> type h | None \<Rightarrow> type (nextBlock s))"
      unfolding f by (rule type_createFallingBlock)
    have f3: "atSpawnAnchor (fallingBlock s')"
      unfolding f by (rule atSpawnAnchor_createFallingBlock)
    have g1: "heldBlock s' =
              Some (case type (fallingBlock s) of
                      SQUARE \<Rightarrow> squareBlock | L_SHAPE1 \<Rightarrow> lShapeBlock1 | L_SHAPE2 \<Rightarrow> lShapeBlock2
                    | T_SHAPE \<Rightarrow> tShapeBlock | LINE \<Rightarrow> lineBlock | Z_SHAPE1 \<Rightarrow> zShapeBlock1
                    | Z_SHAPE2 \<Rightarrow> zShapeBlock2)"
      unfolding g createFallingBlock_def by (simp only: blockConfigurations_table)
    have g2: "map_option type (heldBlock s') = Some (type (fallingBlock s))"
      unfolding g by (simp add: type_createFallingBlock)
    have g3: "map_option atSpawnAnchor (heldBlock s') = Some True"
      unfolding g by (simp add: atSpawnAnchor_createFallingBlock)
    show ?thesis using f1 f2 f3 g1 g2 g3 by blast
  qed
  have two: "\<exists>t. holdBlock s = Inr t" if "heldBlock s \<noteq> None"
    using that assms by (simp add: holdBlock_def Let_def)
  have three: "\<exists>t. holdBlock s = Inr t"
    if "0 \<le> currentSeed s \<and> currentSeed s < 2 ^ 31 \<and> None \<notin> set (currentBag s)"
  proof -
    from that drawFromBag_returns [of "currentSeed s" "currentBag s"] obtain d where
      "drawFromBag (currentSeed s) (currentBag s) = Inr d" by blast
    then show ?thesis using assms by (simp add: holdBlock_def Let_def)
  qed
  show ?thesis using one two three by blast
qed

lemma heldTState_hold: "\<not> isl (holdBlock heldTState)"
  by code_simp

theorem hold_rebuilds_at_spawn_witness:
  "\<not> blockHeldDuringFall landedState \<and> heldBlock landedState = None \<and>
   type (nextBlock landedState) = L_SHAPE2 \<and> type (fallingBlock landedState) = LINE \<and>
   cells (fallingBlock landedState)
     = [\<lparr>cx = 80, cy = 380\<rparr>, \<lparr>cx = 100, cy = 380\<rparr>, \<lparr>cx = 120, cy = 380\<rparr>, \<lparr>cx = 60, cy = 380\<rparr>] \<and>
   (\<exists>s'. holdBlock landedState = Inr s' \<and>
         type (fallingBlock s') = L_SHAPE2 \<and>
         cells (fallingBlock s')
           = [\<lparr>cx = 60, cy = 20\<rparr>, \<lparr>cx = 80, cy = 20\<rparr>, \<lparr>cx = 100, cy = 0\<rparr>, \<lparr>cx = 100, cy = 20\<rparr>] \<and>
         map_option type (heldBlock s') = Some LINE \<and>
         map_option cells (heldBlock s')
           = Some [\<lparr>cx = 80, cy = 0\<rparr>, \<lparr>cx = 100, cy = 0\<rparr>, \<lparr>cx = 120, cy = 0\<rparr>, \<lparr>cx = 60, cy = 0\<rparr>]) \<and>
   \<not> blockHeldDuringFall heldTState \<and> map_option type (heldBlock heldTState) = Some T_SHAPE \<and>
   (\<exists>s'. holdBlock heldTState = Inr s' \<and>
         type (fallingBlock s') = T_SHAPE \<and>
         cells (fallingBlock s')
           = [\<lparr>cx = 60, cy = 20\<rparr>, \<lparr>cx = 80, cy = 20\<rparr>, \<lparr>cx = 100, cy = 20\<rparr>, \<lparr>cx = 80, cy = 0\<rparr>] \<and>
         map_option type (heldBlock s') = Some LINE \<and>
         map_option cells (heldBlock s')
           = Some [\<lparr>cx = 80, cy = 0\<rparr>, \<lparr>cx = 100, cy = 0\<rparr>, \<lparr>cx = 120, cy = 0\<rparr>, \<lparr>cx = 60, cy = 0\<rparr>])"
proof -
  have g1: "\<not> blockHeldDuringFall landedState" and h1: "heldBlock landedState = None"
    and n1: "type (nextBlock landedState) = L_SHAPE2" and t1: "type (fallingBlock landedState) = LINE"
    and c1: "cells (fallingBlock landedState)
       = [\<lparr>cx = 80, cy = 380\<rparr>, \<lparr>cx = 100, cy = 380\<rparr>, \<lparr>cx = 120, cy = 380\<rparr>, \<lparr>cx = 60, cy = 380\<rparr>]"
    by code_simp+
  have g2: "\<not> blockHeldDuringFall heldTState"
    and h2: "heldBlock heldTState = Some tShapeBlock"
    and t2: "type (fallingBlock heldTState) = LINE"
    by code_simp+
  have tt: "type tShapeBlock = T_SHAPE" by (simp add: tShapeBlock_def)
  have cl2: "cells lShapeBlock2
       = [\<lparr>cx = 60, cy = 20\<rparr>, \<lparr>cx = 80, cy = 20\<rparr>, \<lparr>cx = 100, cy = 0\<rparr>, \<lparr>cx = 100, cy = 20\<rparr>]"
    and ct: "cells tShapeBlock
       = [\<lparr>cx = 60, cy = 20\<rparr>, \<lparr>cx = 80, cy = 20\<rparr>, \<lparr>cx = 100, cy = 20\<rparr>, \<lparr>cx = 80, cy = 0\<rparr>]"
    and cl: "cells lineBlock
       = [\<lparr>cx = 80, cy = 0\<rparr>, \<lparr>cx = 100, cy = 0\<rparr>, \<lparr>cx = 120, cy = 0\<rparr>, \<lparr>cx = 60, cy = 0\<rparr>]"
    by code_simp+
  obtain s1 where s1: "holdBlock landedState = Inr s1"
    using landedState_hold by (cases "holdBlock landedState") auto
  obtain s2 where s2: "holdBlock heldTState = Inr s2"
    using heldTState_hold by (cases "holdBlock heldTState") auto
  note r1 = hold_rebuilds_at_spawn [OF g1, of s1, THEN conjunct1, rule_format, OF s1]
  note r2 = hold_rebuilds_at_spawn [OF g2, of s2, THEN conjunct1, rule_format, OF s2]
  have a1: "fallingBlock s1 = lShapeBlock2"
    using r1 [THEN conjunct1] by (simp add: h1 n1)
  have a2: "type (fallingBlock s1) = L_SHAPE2"
    using r1 [THEN conjunct2, THEN conjunct1] by (simp add: h1 n1)
  have a3: "heldBlock s1 = Some lineBlock"
    using r1 [THEN conjunct2, THEN conjunct2, THEN conjunct2, THEN conjunct1] by (simp add: t1)
  have a4: "map_option type (heldBlock s1) = Some LINE"
    using r1 [THEN conjunct2, THEN conjunct2, THEN conjunct2, THEN conjunct2, THEN conjunct1]
    by (simp only: t1)
  have b1: "fallingBlock s2 = tShapeBlock"
    using r2 [THEN conjunct1] by (simp add: h2 tt)
  have b2: "type (fallingBlock s2) = T_SHAPE"
    using r2 [THEN conjunct2, THEN conjunct1] by (simp add: h2 tt)
  have b3: "heldBlock s2 = Some lineBlock"
    using r2 [THEN conjunct2, THEN conjunct2, THEN conjunct2, THEN conjunct1] by (simp add: t2)
  have b4: "map_option type (heldBlock s2) = Some LINE"
    using r2 [THEN conjunct2, THEN conjunct2, THEN conjunct2, THEN conjunct2, THEN conjunct1]
    by (simp only: t2)
  have w1: "\<exists>s'. holdBlock landedState = Inr s' \<and>
         type (fallingBlock s') = L_SHAPE2 \<and>
         cells (fallingBlock s')
           = [\<lparr>cx = 60, cy = 20\<rparr>, \<lparr>cx = 80, cy = 20\<rparr>, \<lparr>cx = 100, cy = 0\<rparr>, \<lparr>cx = 100, cy = 20\<rparr>] \<and>
         map_option type (heldBlock s') = Some LINE \<and>
         map_option cells (heldBlock s')
           = Some [\<lparr>cx = 80, cy = 0\<rparr>, \<lparr>cx = 100, cy = 0\<rparr>, \<lparr>cx = 120, cy = 0\<rparr>, \<lparr>cx = 60, cy = 0\<rparr>]"
    using s1 a2 a4 by (simp add: a1 a3 cl2 cl)
  have w2: "\<exists>s'. holdBlock heldTState = Inr s' \<and>
         type (fallingBlock s') = T_SHAPE \<and>
         cells (fallingBlock s')
           = [\<lparr>cx = 60, cy = 20\<rparr>, \<lparr>cx = 80, cy = 20\<rparr>, \<lparr>cx = 100, cy = 20\<rparr>, \<lparr>cx = 80, cy = 0\<rparr>] \<and>
         map_option type (heldBlock s') = Some LINE \<and>
         map_option cells (heldBlock s')
           = Some [\<lparr>cx = 80, cy = 0\<rparr>, \<lparr>cx = 100, cy = 0\<rparr>, \<lparr>cx = 120, cy = 0\<rparr>, \<lparr>cx = 60, cy = 0\<rparr>]"
    using s2 b2 b4 by (simp add: b1 b3 ct cl)
  have m2: "map_option type (heldBlock heldTState) = Some T_SHAPE" by (simp add: h2 tt)
  show ?thesis using g1 h1 n1 t1 c1 w1 g2 m2 w2 by blast
qed

section \<open>Restart\<close>

lemma reducer_restart: "reducer s RestartMove = Some (restartGame s)"
  by (simp add: reducer_def)

text \<open>
  Claim C7. \<open>restartGame\<close> on a running state returns it unchanged, and the reducer
  passes the restart action to \<open>restartGame\<close> in either state. On an ended state (with a
  well-formed seed and bag) it returns the initial state's fields for the flag, the grid,
  the level, the lines and the score, \<open>highScore = max score highScore\<close>, no held block,
  the hold gate open, and the blocks, seed and bag of two successive \<open>drawFromBag\<close> calls
  that start from the state's own seed and bag.
\<close>

theorem restart_only_when_ended:
  "(\<not> gameEnd s \<longrightarrow> restartGame s = Inr s) \<and>
   reducer s RestartMove = Some (restartGame s) \<and>
   (gameEnd s \<and> 0 \<le> currentSeed s \<and> currentSeed s < 2 ^ 31 \<and> None \<notin> set (currentBag s) \<longrightarrow>
      (\<exists>d1 d2. drawFromBag (currentSeed s) (currentBag s) = Inr d1 \<and>
               drawFromBag (newSeed d1) (newBag d1) = Inr d2 \<and>
               restartGame s =
                 Inr \<lparr>gameEnd = False,
                      fallingBlock = drawnBlock d1,
                      placedBlocks = emptyGrid,
                      level = 1,
                      linesCleared = 0,
                      score = 0,
                      highScore = max (score s) (highScore s),
                      nextBlock = drawnBlock d2,
                      heldBlock = None,
                      blockHeldDuringFall = False,
                      currentSeed = newSeed d2,
                      currentBag = newBag d2\<rparr>))"
proof -
  have one: "restartGame s = Inr s" if "\<not> gameEnd s"
    using that by (simp add: restartGame_def)
  have two: "\<exists>d1 d2. drawFromBag (currentSeed s) (currentBag s) = Inr d1 \<and>
               drawFromBag (newSeed d1) (newBag d1) = Inr d2 \<and>
               restartGame s =
                 Inr \<lparr>gameEnd = False,
                      fallingBlock = drawnBlock d1,
                      placedBlocks = emptyGrid,
                      level = 1,
                      linesCleared = 0,
                      score = 0,
                      highScore = max (score s) (highScore s),
                      nextBlock = drawnBlock d2,
                      heldBlock = None,
                      blockHeldDuringFall = False,
                      currentSeed = newSeed d2,
                      currentBag = newBag d2\<rparr>"
    if h: "gameEnd s \<and> 0 \<le> currentSeed s \<and> currentSeed s < 2 ^ 31 \<and> None \<notin> set (currentBag s)"
  proof -
    from h drawFromBag_returns [of "currentSeed s" "currentBag s"] obtain d1 where
      d1: "drawFromBag (currentSeed s) (currentBag s) = Inr d1" and
      s1: "0 \<le> newSeed d1" and b1: "None \<notin> set (newBag d1)" by blast
    from drawFromBag_returns [OF s1 b1] obtain d2 where
      d2: "drawFromBag (newSeed d1) (newBag d1) = Inr d2" by blast
    have "restartGame s =
                 Inr \<lparr>gameEnd = False,
                      fallingBlock = drawnBlock d1,
                      placedBlocks = emptyGrid,
                      level = 1,
                      linesCleared = 0,
                      score = 0,
                      highScore = max (score s) (highScore s),
                      nextBlock = drawnBlock d2,
                      heldBlock = None,
                      blockHeldDuringFall = False,
                      currentSeed = newSeed d2,
                      currentBag = newBag d2\<rparr>"
      using h by (simp add: restartGame_def d1 d2 initialState_value initialStateValue_def)
    with d1 d2 show ?thesis by blast
  qed
  show ?thesis using one two reducer_restart by blast
qed

theorem restart_only_when_ended_witness:
  "\<not> gameEnd initialStateValue \<and> restartGame initialStateValue = Inr initialStateValue \<and>
   gameEnd endedState \<and> 0 \<le> currentSeed endedState \<and> currentSeed endedState < 2 ^ 31 \<and>
   None \<notin> set (currentBag endedState) \<and>
   (\<exists>s'. restartGame endedState = Inr s' \<and> highScore s' = 300 \<and> score s' = 0 \<and>
         placedBlocks s' = emptyGrid \<and> heldBlock s' = None \<and> \<not> gameEnd s')"
proof -
  have a: "\<not> gameEnd initialStateValue" by (simp add: initialStateValue_def)
  have b: "gameEnd endedState \<and> 0 \<le> currentSeed endedState \<and> currentSeed endedState < 2 ^ 31 \<and>
           None \<notin> set (currentBag endedState)"
    by (auto simp add: endedState_def initialStateValue_def)
  have sc: "max (score endedState) (highScore endedState) = 300"
    by (simp add: endedState_def initialStateValue_def)
  from restart_only_when_ended [of initialStateValue] a
  have r1: "restartGame initialStateValue = Inr initialStateValue" by blast
  from restart_only_when_ended [of endedState] b obtain d1 d2 :: DrawResult where
    "restartGame endedState =
                 Inr \<lparr>gameEnd = False,
                      fallingBlock = drawnBlock d1,
                      placedBlocks = emptyGrid,
                      level = 1,
                      linesCleared = 0,
                      score = 0,
                      highScore = max (score endedState) (highScore endedState),
                      nextBlock = drawnBlock d2,
                      heldBlock = None,
                      blockHeldDuringFall = False,
                      currentSeed = newSeed d2,
                      currentBag = newBag d2\<rparr>" by blast
  then have "\<exists>s'. restartGame endedState = Inr s' \<and> highScore s' = 300 \<and> score s' = 0 \<and>
         placedBlocks s' = emptyGrid \<and> heldBlock s' = None \<and> \<not> gameEnd s'"
    by (simp add: sc)
  then show ?thesis using a b r1 by blast
qed

section \<open>Rotation of the square\<close>

lemma card_two: "a \<noteq> b \<Longrightarrow> card {a, b} = 2"
  by simp

lemma translated_square_coords:
  assumes "fallingBlock s = translated dx dy squareBlock"
  shows "card (set (map cx (cells (fallingBlock s)))) = 2 \<and>
         card (set (map cy (cells (fallingBlock s)))) = 2"
proof -
  have xs: "set (map cx (cells (fallingBlock s))) = {100 + dx, 80 + dx}"
    by (auto simp add: assms translated_def squareBlock_def CANVAS_WIDTH_def Block_WIDTH_def
          Block_HEIGHT_def CANVAS_HEIGHT_def GRID_WIDTH_def GRID_HEIGHT_def)
  have ys: "set (map cy (cells (fallingBlock s))) = {dy, 20 + dy}"
    by (auto simp add: assms translated_def squareBlock_def CANVAS_WIDTH_def Block_WIDTH_def
          Block_HEIGHT_def CANVAS_HEIGHT_def GRID_WIDTH_def GRID_HEIGHT_def)
  have "card (set (map cx (cells (fallingBlock s)))) = 2"
    unfolding xs by (rule card_two) simp
  moreover have "card (set (map cy (cells (fallingBlock s)))) = 2"
    unfolding ys by (rule card_two) simp
  ultimately show ?thesis by simp
qed

lemma rotateBlock_two_by_two:
  assumes "card (set (map cx (cells (fallingBlock s)))) = 2"
    and "card (set (map cy (cells (fallingBlock s)))) = 2"
  shows "rotateBlock s = Inr s"
  using assms by (simp add: rotateBlock_def Let_def)

text \<open>
  Claim C9. For every state whose falling block is of the Square kind, rotation is a
  no-op: \<open>rotateBlock\<close> returns the state unchanged. A block of the Square kind is the
  block \<open>squareBlock\<close> builds, the only source of the kind tag \<open>SQUARE\<close>, moved by any
  offset; in every state of a game a falling block tagged \<open>SQUARE\<close> is such a block
  (\<open>reachable_wellFormed\<close> below). Its cells span two distinct \<open>x\<close> and two distinct
  \<open>y\<close> coordinates, which is the test \<open>rotateBlock\<close> makes before it rotates anything.
\<close>

theorem square_layout_rotation:
  assumes "fallingBlock s = translated dx dy squareBlock"
  shows "rotateBlock s = Inr s"
proof -
  from translated_square_coords [OF assms]
  have x: "card (set (map cx (cells (fallingBlock s)))) = 2"
    and y: "card (set (map cy (cells (fallingBlock s)))) = 2" by simp_all
  from x y show ?thesis by (rule rotateBlock_two_by_two)
qed

theorem square_layout_rotation_witness:
  "fallingBlock movedSquareState = translated 20 40 squareBlock \<and>
   rotateBlock movedSquareState = Inr movedSquareState"
proof -
  have a: "fallingBlock movedSquareState = translated 20 40 squareBlock"
    by (simp add: movedSquareState_def)
  show ?thesis using a square_layout_rotation [OF a] by simp
qed

section \<open>Lateral moves and collision checking\<close>

lemma filterE_total:
  assumes "\<forall>a \<in> set xs. p a = Inr (q a)"
  shows "filterE p xs = Inr (filter q xs)"
  using assms by (induction xs) simp_all

lemma isValidPosition_iff:
  "isValidPosition b g = (filter (isInvalidCell g) (cells b) = [])"
  by (simp add: isValidPosition_def)

lemma lookup_Some_mem: "lookup xs i = Some x \<Longrightarrow> x \<in> set xs"
  by (auto simp add: lookup_def split: if_splits)

lemma lookup_wide_row:
  assumes "GRID_WIDTH \<le> length row" and "0 \<le> x" and "x < CANVAS_WIDTH"
  shows "lookup row (x div Block_WIDTH) = Some (row ! nat (x div Block_WIDTH))"
proof -
  have "0 \<le> x div 20" using assms(2) by simp
  moreover have "x div 20 < 10" using assms(3) by (simp add: CANVAS_WIDTH_def)
  ultimately show ?thesis using assms(1)
    by (simp add: lookup_def Block_WIDTH_def CANVAS_WIDTH_def GRID_WIDTH_def)
qed

lemma moveInvalidCell_eq:
  assumes "0 \<le> cy c" and "cy c < CANVAS_HEIGHT"
    and "\<forall>row \<in> set (placedBlocks s). GRID_WIDTH \<le> length row"
  shows "moveInvalidCell direction s c =
           Inr (isInvalidCell (placedBlocks s) \<lparr>cx = cx c + offsetX direction, cy = cy c\<rparr>)"
proof (cases "cx c + offsetX direction < 0 \<or> cx c + offsetX direction \<ge> CANVAS_WIDTH")
  case True
  then show ?thesis by (auto simp add: moveInvalidCell_def isInvalidCell_def Let_def)
next
  case False
  then have x: "0 \<le> cx c + offsetX direction" "cx c + offsetX direction < CANVAS_WIDTH" by simp_all
  show ?thesis
  proof (cases "lookup (placedBlocks s) (cy c div Block_HEIGHT)")
    case None
    then show ?thesis using False assms(1,2)
      by (simp add: moveInvalidCell_def isInvalidCell_def Let_def rowCellPlaced_def)
  next
    case (Some row)
    then have "row \<in> set (placedBlocks s)" by (rule lookup_Some_mem)
    then have "GRID_WIDTH \<le> length row" using assms(3) by blast
    from lookup_wide_row [OF this x]
    show ?thesis using False assms(1,2) Some
      by (simp add: moveInvalidCell_def isInvalidCell_def Let_def rowCellPlaced_def)
  qed
qed

lemma canMove_eq_isValidPosition:
  assumes "\<forall>c \<in> set (cells (fallingBlock s)). 0 \<le> cy c \<and> cy c < CANVAS_HEIGHT"
    and "\<forall>row \<in> set (placedBlocks s). GRID_WIDTH \<le> length row"
  shows "canMove direction s =
           Inr (isValidPosition (shiftedBlock direction (fallingBlock s)) (placedBlocks s))"
proof -
  define q where "q = (\<lambda>c :: Coord. isInvalidCell (placedBlocks s) \<lparr>cx = cx c + offsetX direction, cy = cy c\<rparr>)"
  have "\<forall>c \<in> set (cells (fallingBlock s)). moveInvalidCell direction s c = Inr (q c)"
    using assms by (simp add: q_def moveInvalidCell_eq)
  then have f: "filterE (moveInvalidCell direction s) (cells (fallingBlock s))
                = Inr (filter q (cells (fallingBlock s)))"
    by (rule filterE_total)
  have "isValidPosition (shiftedBlock direction (fallingBlock s)) (placedBlocks s)
        = (filter q (cells (fallingBlock s)) = [])"
    by (simp add: isValidPosition_iff shiftedBlock_def filter_map q_def comp_def)
  then show ?thesis by (simp add: canMove_def f)
qed



section \<open>Ghost projection and hard drop\<close>

lemma moveBlockDown_shiftDown:
  "moveBlockDown (st\<lparr>fallingBlock := b\<rparr>) = st\<lparr>fallingBlock := shiftDown b\<rparr>"
  by (simp add: moveBlockDown_def shiftDown_def)

lemma downInvalidCell_eq:
  assumes "0 \<le> cx c" and "cx c < CANVAS_WIDTH"
    and "\<forall>row \<in> set (placedBlocks st). GRID_WIDTH \<le> length row"
  shows "downInvalidCell st c = Inr (specBlockedBelow (placedBlocks st) c)"
proof (cases "cy c + Block_HEIGHT \<ge> CANVAS_HEIGHT")
  case True
  then show ?thesis by (simp add: downInvalidCell_def specBlockedBelow_def Let_def)
next
  case False
  show ?thesis
  proof (cases "lookup (placedBlocks st) ((cy c + Block_HEIGHT) div Block_HEIGHT)")
    case None
    then show ?thesis using False
      by (simp add: downInvalidCell_def specBlockedBelow_def Let_def rowCellPlaced_def)
  next
    case (Some row)
    then have "row \<in> set (placedBlocks st)" by (rule lookup_Some_mem)
    then have "GRID_WIDTH \<le> length row" using assms(3) by blast
    from lookup_wide_row [OF this assms(1,2)]
    show ?thesis using False Some
      by (simp add: downInvalidCell_def specBlockedBelow_def Let_def rowCellPlaced_def)
  qed
qed

lemma canMoveDown_eq_spec:
  assumes "\<forall>c \<in> set (cells b). 0 \<le> cx c \<and> cx c < CANVAS_WIDTH"
    and "\<forall>row \<in> set (placedBlocks st). GRID_WIDTH \<le> length row"
  shows "canMoveDown (st\<lparr>fallingBlock := b\<rparr>) = Inr (specCanDescend (placedBlocks st) b)"
proof -
  have "\<forall>c \<in> set (cells b).
          downInvalidCell (st\<lparr>fallingBlock := b\<rparr>) c = Inr (specBlockedBelow (placedBlocks st) c)"
    using assms downInvalidCell_eq [of _ "st\<lparr>fallingBlock := b\<rparr>"] by simp
  then have "filterE (downInvalidCell (st\<lparr>fallingBlock := b\<rparr>)) (cells b)
             = Inr (filter (specBlockedBelow (placedBlocks st)) (cells b))"
    by (rule filterE_total)
  then show ?thesis
    by (simp add: canMoveDown_def specCanDescend_def filter_empty_conv list_all_iff)
qed

lemma shiftDown_cx:
  "(\<forall>c \<in> set (cells (shiftDown b)). 0 \<le> cx c \<and> cx c < CANVAS_WIDTH)
   = (\<forall>c \<in> set (cells b). 0 \<le> cx c \<and> cx c < CANVAS_WIDTH)"
  by (simp add: shiftDown_def)

lemma shiftDown_nonempty: "(cells (shiftDown b) = []) = (cells b = [])"
  by (simp add: shiftDown_def)

lemma shiftDown_hd: "cells b \<noteq> [] \<Longrightarrow> cy (hd (cells (shiftDown b))) = cy (hd (cells b)) + Block_HEIGHT"
  by (simp add: shiftDown_def hd_map)

lemma specCanDescend_hd:
  assumes "specCanDescend g b" and "cells b \<noteq> []"
  shows "cy (hd (cells b)) + Block_HEIGHT < CANVAS_HEIGHT"
proof -
  have "hd (cells b) \<in> set (cells b)" using assms(2) by simp
  then have "\<not> specBlockedBelow g (hd (cells b))"
    using assms(1) by (simp add: specCanDescend_def list_all_iff)
  then show ?thesis by (simp add: specBlockedBelow_def)
qed

lemma descent:
  assumes "cells b \<noteq> []"
    and "\<forall>c \<in> set (cells b). 0 \<le> cx c \<and> cx c < CANVAS_WIDTH"
    and "\<forall>row \<in> set (placedBlocks st). GRID_WIDTH \<le> length row"
  shows "\<exists>n. moveGhostBlockToGround st b = Some (Inr ((shiftDown ^^ n) b)) \<and>
             (\<forall>k < n. specCanDescend (placedBlocks st) ((shiftDown ^^ k) b)) \<and>
             \<not> specCanDescend (placedBlocks st) ((shiftDown ^^ n) b) \<and>
             moveHardDown (st\<lparr>fallingBlock := b\<rparr>)
               = Some (handleBlockLocking (st\<lparr>fallingBlock := (shiftDown ^^ n) b\<rparr>))"
  using assms
proof (induction "nat (CANVAS_HEIGHT - cy (hd (cells b)))" arbitrary: st b rule: less_induct)
  case less
  have cm: "canMoveDown (st\<lparr>fallingBlock := b\<rparr>) = Inr (specCanDescend (placedBlocks st) b)"
    using less.prems(2,3) by (rule canMoveDown_eq_spec)
  show ?case
  proof (cases "specCanDescend (placedBlocks st) b")
    case False
    have g: "moveGhostBlockToGround st b = Some (Inr b)"
      by (subst moveGhostBlockToGround.simps) (simp add: cm False)
    have h: "moveHardDown (st\<lparr>fallingBlock := b\<rparr>) = Some (handleBlockLocking (st\<lparr>fallingBlock := b\<rparr>))"
      by (subst moveHardDown.simps) (simp add: cm False)
    have "moveGhostBlockToGround st b = Some (Inr ((shiftDown ^^ 0) b)) \<and>
             (\<forall>k < 0. specCanDescend (placedBlocks st) ((shiftDown ^^ k) b)) \<and>
             \<not> specCanDescend (placedBlocks st) ((shiftDown ^^ 0) b) \<and>
             moveHardDown (st\<lparr>fallingBlock := b\<rparr>)
               = Some (handleBlockLocking (st\<lparr>fallingBlock := (shiftDown ^^ 0) b\<rparr>))"
      using g h False by simp
    then show ?thesis by blast
  next
    case True
    define st' where "st' = st\<lparr>fallingBlock := b\<rparr>"
    have lt: "cy (hd (cells b)) + Block_HEIGHT < CANVAS_HEIGHT"
      using True less.prems(1) by (rule specCanDescend_hd)
    have m: "nat (CANVAS_HEIGHT - cy (hd (cells (shiftDown b)))) < nat (CANVAS_HEIGHT - cy (hd (cells b)))"
      using lt by (simp add: shiftDown_hd [OF less.prems(1)] Block_HEIGHT_def CANVAS_HEIGHT_def GRID_HEIGHT_def)
    have p1: "cells (shiftDown b) \<noteq> []" using less.prems(1) by (simp add: shiftDown_nonempty)
    have p2: "\<forall>c \<in> set (cells (shiftDown b)). 0 \<le> cx c \<and> cx c < CANVAS_WIDTH"
      using less.prems(2) by (simp only: shiftDown_cx)
    have p3: "\<forall>row \<in> set (placedBlocks st'). GRID_WIDTH \<le> length row"
      using less.prems(3) by (simp add: st'_def)
    from less.hyps [OF m p1 p2 p3] obtain n where
      n1: "moveGhostBlockToGround st' (shiftDown b) = Some (Inr ((shiftDown ^^ n) (shiftDown b)))" and
      n2: "\<forall>k < n. specCanDescend (placedBlocks st') ((shiftDown ^^ k) (shiftDown b))" and
      n3: "\<not> specCanDescend (placedBlocks st') ((shiftDown ^^ n) (shiftDown b))" and
      n4: "moveHardDown (st'\<lparr>fallingBlock := shiftDown b\<rparr>)
               = Some (handleBlockLocking (st'\<lparr>fallingBlock := (shiftDown ^^ n) (shiftDown b)\<rparr>))"
      by blast
    have pg: "placedBlocks st' = placedBlocks st" by (simp add: st'_def)
    have up: "st'\<lparr>fallingBlock := x\<rparr> = st\<lparr>fallingBlock := x\<rparr>" for x by (simp add: st'_def)
    have sh: "(shiftDown ^^ k) (shiftDown b) = (shiftDown ^^ Suc k) b" for k
      by (simp add: funpow_swap1)
    have fb: "fallingBlock (moveBlockDown (st\<lparr>fallingBlock := b\<rparr>)) = shiftDown b"
      by (simp add: moveBlockDown_shiftDown)
    have "moveGhostBlockToGround st b = moveGhostBlockToGround st' (shiftDown b)"
      by (subst moveGhostBlockToGround.simps) (simp add: cm True fb st'_def)
    then have g: "moveGhostBlockToGround st b = Some (Inr ((shiftDown ^^ Suc n) b))"
      by (simp only: n1 sh)
    have "moveHardDown (st\<lparr>fallingBlock := b\<rparr>) = moveHardDown (st\<lparr>fallingBlock := shiftDown b\<rparr>)"
      by (subst moveHardDown.simps) (simp add: cm True moveBlockDown_shiftDown)
    then have h: "moveHardDown (st\<lparr>fallingBlock := b\<rparr>)
             = Some (handleBlockLocking (st\<lparr>fallingBlock := (shiftDown ^^ Suc n) b\<rparr>))"
      using n4 by (simp only: up sh)
    have a: "\<forall>k < Suc n. specCanDescend (placedBlocks st) ((shiftDown ^^ k) b)"
    proof (intro allI impI)
      fix k assume k: "k < Suc n"
      show "specCanDescend (placedBlocks st) ((shiftDown ^^ k) b)"
      proof (cases k)
        case 0
        then show ?thesis using True by simp
      next
        case (Suc j)
        then have "j < n" using k by simp
        then have "specCanDescend (placedBlocks st') ((shiftDown ^^ j) (shiftDown b))" using n2 by blast
        then show ?thesis unfolding pg sh Suc .
      qed
    qed
    have c: "\<not> specCanDescend (placedBlocks st) ((shiftDown ^^ Suc n) b)"
      using n3 unfolding pg sh .
    show ?thesis using g h a c by blast
  qed
qed

text \<open>
  Claim C5. For every state with a falling block of at least one cell, inside the board
  horizontally, over a grid whose rows have at least \<open>GRID_WIDTH\<close> cells:
  \<open>getGhostBlockPosition\<close> returns, and returns the falling block shifted down by one
  cell-height \<open>n\<close> times, where the shift keeps the block off the bottom of the board and
  off placed cells from each of the first \<open>n\<close> positions and no longer from the last; and
  \<open>moveHardDown\<close> returns what \<open>handleBlockLocking\<close> returns on the state with that block
  as its falling block. The ghost position is a value computed from the state: the state
  itself is not an output.
\<close>

theorem ghost_is_hard_drop_position:
  assumes "cells (fallingBlock s) \<noteq> []"
    and "\<forall>c \<in> set (cells (fallingBlock s)). 0 \<le> cx c \<and> cx c < CANVAS_WIDTH"
    and "\<forall>row \<in> set (placedBlocks s). GRID_WIDTH \<le> length row"
  shows "\<exists>n. getGhostBlockPosition s = Some (Inr ((shiftDown ^^ n) (fallingBlock s))) \<and>
             (\<forall>k < n. specCanDescend (placedBlocks s) ((shiftDown ^^ k) (fallingBlock s))) \<and>
             \<not> specCanDescend (placedBlocks s) ((shiftDown ^^ n) (fallingBlock s)) \<and>
             moveHardDown s
               = Some (handleBlockLocking (s\<lparr>fallingBlock := (shiftDown ^^ n) (fallingBlock s)\<rparr>))"
proof -
  have "s\<lparr>fallingBlock := fallingBlock s\<rparr> = s" by simp
  then show ?thesis
    using descent [OF assms, of ] by (simp add: getGhostBlockPosition_def)
qed

theorem ghost_is_hard_drop_position_witness:
  "cells (fallingBlock gapState) \<noteq> [] \<and>
   list_all (\<lambda>c. 0 \<le> cx c \<and> cx c < CANVAS_WIDTH) (cells (fallingBlock gapState)) \<and>
   list_all (\<lambda>row. GRID_WIDTH \<le> length row) (placedBlocks gapState) \<and>
   (\<exists>n. getGhostBlockPosition gapState = Some (Inr ((shiftDown ^^ n) (fallingBlock gapState))) \<and>
        moveHardDown gapState
          = Some (handleBlockLocking
                    (gapState\<lparr>fallingBlock := (shiftDown ^^ n) (fallingBlock gapState)\<rparr>))) \<and>
   getGhostBlockPosition gapState = Some (Inr landedLine)"
proof -
  have a: "cells (fallingBlock gapState) \<noteq> []"
    by (simp add: gapState_def lineBlock_def)
  have b: "\<forall>c \<in> set (cells (fallingBlock gapState)). 0 \<le> cx c \<and> cx c < CANVAS_WIDTH"
    by (simp add: gapState_def lineBlock_def CANVAS_WIDTH_def Block_WIDTH_def GRID_WIDTH_def)
  have c: "\<forall>row \<in> set (placedBlocks gapState). GRID_WIDTH \<le> length row"
    by (auto simp add: gapState_def initialStateValue_def gapGrid_def GRID_WIDTH_def)
  have g: "getGhostBlockPosition gapState = Some (Inr landedLine)" by code_simp
  from ghost_is_hard_drop_position [OF a b c] obtain n where
    "getGhostBlockPosition gapState = Some (Inr ((shiftDown ^^ n) (fallingBlock gapState)))"
    "moveHardDown gapState
          = Some (handleBlockLocking
                    (gapState\<lparr>fallingBlock := (shiftDown ^^ n) (fallingBlock gapState)\<rparr>))"
    by blast
  then have "\<exists>n. getGhostBlockPosition gapState = Some (Inr ((shiftDown ^^ n) (fallingBlock gapState))) \<and>
        moveHardDown gapState
          = Some (handleBlockLocking
                    (gapState\<lparr>fallingBlock := (shiftDown ^^ n) (fallingBlock gapState)\<rparr>))"
    by blast
  then show ?thesis using a b c g by (simp add: list_all_iff)
qed

section \<open>Every state of a game is well formed\<close>

lemma inBoard_createFallingBlock: "inBoard (createFallingBlock k)"
  by (cases k)
     (simp_all add: createFallingBlock_def inBoard_def squareBlock_def lShapeBlock1_def
        lShapeBlock2_def tShapeBlock_def zShapeBlock1_def zShapeBlock2_def lineBlock_def
        CANVAS_WIDTH_def CANVAS_HEIGHT_def GRID_WIDTH_def GRID_HEIGHT_def Block_WIDTH_def
        Block_HEIGHT_def)

lemma coord_eta: "\<lparr>cx = cx c, cy = cy c\<rparr> = (c :: Coord)"
  by (cases c) simp

lemma translated_zero: "translated 0 0 b = b"
  by (simp add: translated_def coord_eta)

lemma squareIsSquare_createFallingBlock: "squareIsSquare (createFallingBlock k)"
proof -
  have "createFallingBlock SQUARE = translated 0 0 squareBlock"
    by (simp add: translated_zero createFallingBlock_def)
  then show ?thesis
    unfolding squareIsSquare_def type_createFallingBlock by blast
qed

lemma isValidPosition_cells:
  assumes "isValidPosition b g" and "c \<in> set (cells b)"
  shows "0 \<le> cx c \<and> cx c < CANVAS_WIDTH \<and> 0 \<le> cy c \<and> cy c < CANVAS_HEIGHT"
proof -
  have "\<not> isInvalidCell g c"
    using assms by (simp add: isValidPosition_iff filter_empty_conv)
  then show ?thesis by (auto simp add: isInvalidCell_def split: if_splits)
qed

lemma isValidPosition_inBoard:
  assumes "isValidPosition b g" and "cells b \<noteq> []"
  shows "inBoard b"
  using assms isValidPosition_cells [OF assms(1)] by (simp add: inBoard_def list_all_iff)

lemma drawFromBag_created:
  assumes "drawFromBag seed bag = Inr d"
  shows "\<exists>k. drawnBlock d = createFallingBlock k"
  using assms by (auto simp add: drawFromBag_def Let_def split: option.splits)

lemma stampCell_widths:
  assumes "stampCell col acc c = Inr acc'" and "list_all (\<lambda>row. length row = n) acc"
  shows "list_all (\<lambda>row. length row = n) acc'"
proof -
  from assms(1) obtain row where
    r: "lookup acc (cy c div Block_HEIGHT) = Some row" and
    a: "acc' = acc[nat (cy c div Block_HEIGHT) :=
                     row[nat (cx c div Block_WIDTH) := \<lparr>placed = True, cellColour = col\<rparr>]]"
    by (auto simp add: stampCell_def Let_def split: option.splits if_splits)
  have "row \<in> set acc" using r by (rule lookup_Some_mem)
  then have "length row = n" using assms(2) by (simp add: list_all_iff)
  then have "\<forall>x \<in> set acc'. length x = n"
    using assms(2) unfolding a by (auto simp add: list_all_iff dest!: set_update_subset_insert [THEN subsetD])
  then show ?thesis by (simp add: list_all_iff)
qed

lemma stampCells_widths:
  assumes "stampCells col acc cs = Inr acc'" and "list_all (\<lambda>row. length row = n) acc"
  shows "list_all (\<lambda>row. length row = n) acc'"
  using assms
proof (induction cs arbitrary: acc)
  case Nil
  then show ?case by simp
next
  case (Cons c cs)
  from Cons.prems(1) obtain acc1 where
    a: "stampCell col acc c = Inr acc1" and b: "stampCells col acc1 cs = Inr acc'"
    by (auto split: sum.splits)
  from Cons.IH [OF b stampCell_widths [OF a Cons.prems(2)]] show ?case .
qed

lemma clearFullRows_wellFormed:
  assumes "wellFormed s"
  shows "wellFormed (clearFullRows s)"
  using assms by (auto simp add: wellFormed_def clearFullRows_def Let_def list_all_iff)

lemma handleBlockLocking_wellFormed:
  assumes "handleBlockLocking t = Inr s'"
    and "list_all (\<lambda>row. length row = GRID_WIDTH) (placedBlocks t)"
    and "\<exists>k. nextBlock t = createFallingBlock k"
  shows "wellFormed s'"
proof (rule handleBlockLocking_Inr [OF assms(1)])
  fix g d
  assume g: "stampCells (colour (fallingBlock t)) (placedBlocks t) (cells (fallingBlock t)) = Inr g"
    and d: "drawFromBag (currentSeed t) (currentBag t) = Inr d"
    and s': "s' = clearFullRows
            (t\<lparr>gameEnd := list_ex (\<lambda>cell. cy cell div Block_HEIGHT = 0) (cells (fallingBlock t)),
               fallingBlock := nextBlock t,
               placedBlocks := g,
               nextBlock := drawnBlock d,
               blockHeldDuringFall := False,
               currentSeed := newSeed d,
               currentBag := newBag d\<rparr>)"
  from assms(3) obtain k where k: "nextBlock t = createFallingBlock k" by blast
  have w: "list_all (\<lambda>row. length row = GRID_WIDTH) g"
    using g assms(2) by (rule stampCells_widths)
  have "wellFormed
            (t\<lparr>gameEnd := list_ex (\<lambda>cell. cy cell div Block_HEIGHT = 0) (cells (fallingBlock t)),
               fallingBlock := nextBlock t,
               placedBlocks := g,
               nextBlock := drawnBlock d,
               blockHeldDuringFall := False,
               currentSeed := newSeed d,
               currentBag := newBag d\<rparr>)"
    using w drawFromBag_created [OF d]
    by (simp add: wellFormed_def k inBoard_createFallingBlock squareIsSquare_createFallingBlock)
  then show ?thesis unfolding s' by (rule clearFullRows_wellFormed)
qed

lemma wellFormed_hyps:
  assumes "wellFormed s"
  shows "cells (fallingBlock s) \<noteq> []"
    and "\<forall>c \<in> set (cells (fallingBlock s)). 0 \<le> cx c \<and> cx c < CANVAS_WIDTH"
    and "\<forall>c \<in> set (cells (fallingBlock s)). 0 \<le> cy c \<and> cy c < CANVAS_HEIGHT"
    and "\<forall>row \<in> set (placedBlocks s). GRID_WIDTH \<le> length row"
  using assms by (auto simp add: wellFormed_def inBoard_def list_all_iff)

lemma translated_shifted:
  "shiftedBlock d (translated dx dy b) = translated (dx + offsetX d) dy b"
  by (simp add: shiftedBlock_def translated_def comp_def add.assoc)

lemma translated_shiftDown:
  "shiftDown (translated dx dy b) = translated dx (dy + Block_HEIGHT) b"
  by (simp add: shiftDown_def translated_def comp_def add.assoc)

lemma squareIsSquare_shifted: "squareIsSquare b \<Longrightarrow> squareIsSquare (shiftedBlock d b)"
  unfolding squareIsSquare_def
  by (metis (no_types, lifting) translated_shifted shiftedBlock_def FallingBlock.select_convs(3)
        FallingBlock.surjective FallingBlock.update_convs(1))

lemma squareIsSquare_shiftDown: "squareIsSquare b \<Longrightarrow> squareIsSquare (shiftDown b)"
  unfolding squareIsSquare_def
  by (metis (no_types, lifting) translated_shiftDown shiftDown_def FallingBlock.select_convs(3)
        FallingBlock.surjective FallingBlock.update_convs(1))


lemma rotateBlock_square_layout:
  assumes "fallingBlock s = translated dx dy squareBlock"
  shows "rotateBlock s = Inr s"
  using translated_square_coords [OF assms] by (simp add: rotateBlock_two_by_two del: set_map)

lemma move_wellFormed:
  assumes "wellFormed s" and "move d s = Inr s'"
  shows "wellFormed s'"
proof -
  note h = wellFormed_hyps [OF assms(1)]
  have cm: "canMove d s = Inr (isValidPosition (shiftedBlock d (fallingBlock s)) (placedBlocks s))"
    using h(3) h(4) by (rule canMove_eq_isValidPosition)
  show ?thesis
  proof (cases "isValidPosition (shiftedBlock d (fallingBlock s)) (placedBlocks s)")
    case False
    then have "s' = s" using assms(2) by (simp add: move_def cm)
    then show ?thesis using assms(1) by simp
  next
    case True
    then have s': "s' = s\<lparr>fallingBlock := shiftedBlock d (fallingBlock s)\<rparr>"
      using assms(2) by (simp add: move_def cm shiftedBlock_def)
    have "cells (shiftedBlock d (fallingBlock s)) \<noteq> []"
      using h(1) by (simp add: shiftedBlock_def)
    with True have "inBoard (shiftedBlock d (fallingBlock s))" by (rule isValidPosition_inBoard)
    moreover have "squareIsSquare (shiftedBlock d (fallingBlock s))"
      using assms(1) by (simp add: wellFormed_def squareIsSquare_shifted)
    ultimately show ?thesis using assms(1) by (simp add: s' wellFormed_def)
  qed
qed

lemma filterE_down:
  assumes "\<forall>c \<in> set (cells (fallingBlock s)). 0 \<le> cx c \<and> cx c < CANVAS_WIDTH"
    and "\<forall>row \<in> set (placedBlocks s). GRID_WIDTH \<le> length row"
  shows "filterE (downInvalidCell s) (cells (fallingBlock s))
         = Inr (filter (specBlockedBelow (placedBlocks s)) (cells (fallingBlock s)))"
proof (rule filterE_total)
  show "\<forall>c \<in> set (cells (fallingBlock s)).
          downInvalidCell s c = Inr (specBlockedBelow (placedBlocks s) c)"
    using assms downInvalidCell_eq [of _ s] by simp
qed

lemma tick_eq:
  assumes "\<forall>c \<in> set (cells (fallingBlock s)). 0 \<le> cx c \<and> cx c < CANVAS_WIDTH"
    and "\<forall>row \<in> set (placedBlocks s). GRID_WIDTH \<le> length row"
  shows "tick s = (if specCanDescend (placedBlocks s) (fallingBlock s)
                   then Inr (s\<lparr>fallingBlock := shiftDown (fallingBlock s)\<rparr>)
                   else handleBlockLocking s)"
proof -
  have cb: "(\<lambda>cell. let newY = cy cell + Block_HEIGHT;
                         yIndex = newY div Block_HEIGHT;
                         xIndex = cx cell div Block_WIDTH
                     in if newY \<ge> CANVAS_HEIGHT then Inr True
                        else rowCellPlaced (placedBlocks s) yIndex xIndex) = downInvalidCell s"
    by (simp add: fun_eq_iff downInvalidCell_def Let_def)
  have sp: "specCanDescend (placedBlocks s) (fallingBlock s)
            = (filter (specBlockedBelow (placedBlocks s)) (cells (fallingBlock s)) = [])"
    by (simp add: specCanDescend_def filter_empty_conv list_all_iff)
  show ?thesis
    unfolding tick_def cb filterE_down [OF assms] sp
    by (simp add: shiftDown_def)
qed

lemma specCanDescend_inBoard:
  assumes "inBoard b" and "specCanDescend g b"
  shows "inBoard (shiftDown b)"
proof -
  have "\<forall>c \<in> set (cells b). cy c + Block_HEIGHT < CANVAS_HEIGHT"
    using assms(2) by (auto simp add: specCanDescend_def list_all_iff specBlockedBelow_def)
  then show ?thesis
    using assms(1)
    by (auto simp add: inBoard_def list_all_iff shiftDown_def Block_HEIGHT_def CANVAS_HEIGHT_def
          GRID_HEIGHT_def)
qed

lemma wellFormed_lock:
  assumes "wellFormed s" and "handleBlockLocking (s\<lparr>fallingBlock := b\<rparr>) = Inr s'"
  shows "wellFormed s'"
  using assms(2)
proof (rule handleBlockLocking_wellFormed)
  show "list_all (\<lambda>row. length row = GRID_WIDTH) (placedBlocks (s\<lparr>fallingBlock := b\<rparr>))"
    using assms(1) by (simp add: wellFormed_def)
  show "\<exists>k. nextBlock (s\<lparr>fallingBlock := b\<rparr>) = createFallingBlock k"
    using assms(1) by (simp add: wellFormed_def)
qed

lemma tick_wellFormed:
  assumes "wellFormed s" and "tick s = Inr s'"
  shows "wellFormed s'"
proof -
  note h = wellFormed_hyps [OF assms(1)]
  note t = tick_eq [OF h(2) h(4)]
  show ?thesis
  proof (cases "specCanDescend (placedBlocks s) (fallingBlock s)")
    case True
    then have s': "s' = s\<lparr>fallingBlock := shiftDown (fallingBlock s)\<rparr>"
      using assms(2) by (simp add: t)
    have "inBoard (shiftDown (fallingBlock s))"
      using assms(1) True by (simp add: wellFormed_def specCanDescend_inBoard)
    moreover have "squareIsSquare (shiftDown (fallingBlock s))"
      using assms(1) by (simp add: wellFormed_def squareIsSquare_shiftDown)
    ultimately show ?thesis using assms(1) by (simp add: s' wellFormed_def)
  next
    case False
    then have "handleBlockLocking (s\<lparr>fallingBlock := fallingBlock s\<rparr>) = Inr s'"
      using assms(2) by (simp add: t)
    with assms(1) show ?thesis by (rule wellFormed_lock)
  qed
qed

lemma moveHardDown_wellFormed:
  assumes "wellFormed s" and "moveHardDown s = Some (Inr s')"
  shows "wellFormed s'"
proof -
  note h = wellFormed_hyps [OF assms(1)]
  from descent [OF h(1) h(2) h(4)] obtain n where
    "moveHardDown (s\<lparr>fallingBlock := fallingBlock s\<rparr>)
       = Some (handleBlockLocking (s\<lparr>fallingBlock := (shiftDown ^^ n) (fallingBlock s)\<rparr>))"
    by blast
  then have "handleBlockLocking (s\<lparr>fallingBlock := (shiftDown ^^ n) (fallingBlock s)\<rparr>) = Inr s'"
    using assms(2) by simp
  with assms(1) show ?thesis by (rule wellFormed_lock)
qed

lemma generateRotatedCells_length:
  assumes "generateRotatedCells cs pivot hor = Inr cs'"
  shows "length cs' = length cs"
  using assms by (auto simp add: generateRotatedCells_def split: option.splits if_splits)

lemma rotateBlock_cases:
  assumes "rotateBlock s = Inr s'"
  shows "s' = s \<or>
         (\<exists>b. s' = s\<lparr>fallingBlock := b\<rparr> \<and> isValidPosition b (placedBlocks s) \<and>
              length (cells b) = length (cells (fallingBlock s)) \<and>
              type b = type (fallingBlock s))"
proof (cases "card (set (map cx (cells (fallingBlock s)))) = 2
              \<and> card (set (map cy (cells (fallingBlock s)))) = 2")
  case True
  then show ?thesis using assms by (simp add: rotateBlock_def Let_def del: set_map)
next
  case nsq: False
  show ?thesis
  proof (cases "generateRotatedCells (cells (fallingBlock s)) (lookup (cells (fallingBlock s)) 1)
                  (isHorizontalLineBlock (set (map cx (cells (fallingBlock s)))))")
    case (Inl e)
    have "rotateBlock s = Inl e"
      apply (simp only: rotateBlock_def Let_def)
      apply (subst if_not_P [OF nsq])
      apply (simp add: Inl del: set_map)
      done
    then show ?thesis using assms by simp
  next
    case (Inr newCells)
    let ?rb = "(fallingBlock s)\<lparr>cells := newCells\<rparr>"
    let ?tests = "if isHorizontalLineBlock (set (map cx (cells (fallingBlock s))))
                  then lineBlockWallKickTests else standardWallKickTests"
    have len: "length (cells ?rb) = length (cells (fallingBlock s))"
      using generateRotatedCells_length [OF Inr] by simp
    have ty: "type ?rb = type (fallingBlock s)" by simp
    have kl: "length (cells (kicked ?rb t)) = length (cells (fallingBlock s))"
      and kt: "type (kicked ?rb t) = type (fallingBlock s)" for t
      using len by (simp_all add: kicked_def)
    have r: "rotateBlock s =
               (if isValidPosition ?rb (placedBlocks s) then Inr (s\<lparr>fallingBlock := ?rb\<rparr>)
                else (case find (\<lambda>test. isValidPosition (kicked ?rb test) (placedBlocks s)) ?tests of
                        Some validKick \<Rightarrow> Inr (s\<lparr>fallingBlock := kicked ?rb validKick\<rparr>)
                      | None \<Rightarrow> Inr s))"
      apply (simp only: rotateBlock_def Let_def)
      apply (subst if_not_P [OF nsq])
      apply (simp only: Inr sum.case)
      done
    show ?thesis
    proof (cases "isValidPosition ?rb (placedBlocks s)")
      case True
      then have "s' = s\<lparr>fallingBlock := ?rb\<rparr>" using assms by (simp add: r)
      then show ?thesis using True len ty by blast
    next
      case False
      show ?thesis
      proof (cases "find (\<lambda>test. isValidPosition (kicked ?rb test) (placedBlocks s)) ?tests")
        case None
        then show ?thesis using assms False by (simp add: r)
      next
        case (Some k)
        then have v: "isValidPosition (kicked ?rb k) (placedBlocks s)"
          by (auto simp add: find_Some_iff)
        have "s' = s\<lparr>fallingBlock := kicked ?rb k\<rparr>" using assms False Some by (simp add: r)
        then show ?thesis using v kl kt by blast
      qed
    qed
  qed
qed

lemma rotateBlock_wellFormed:
  assumes "wellFormed s" and "rotateBlock s = Inr s'"
  shows "wellFormed s'"
proof (cases "type (fallingBlock s) = SQUARE")
  case True
  then obtain dx dy where "fallingBlock s = translated dx dy squareBlock"
    using assms(1) by (auto simp add: wellFormed_def squareIsSquare_def)
  then have "rotateBlock s = Inr s" by (rule rotateBlock_square_layout)
  then show ?thesis using assms by simp
next
  case False
  note h = wellFormed_hyps [OF assms(1)]
  from rotateBlock_cases [OF assms(2)] show ?thesis
  proof
    assume "s' = s"
    then show ?thesis using assms(1) by simp
  next
    assume "\<exists>b. s' = s\<lparr>fallingBlock := b\<rparr> \<and> isValidPosition b (placedBlocks s) \<and>
              length (cells b) = length (cells (fallingBlock s)) \<and>
              type b = type (fallingBlock s)"
    then obtain b where s': "s' = s\<lparr>fallingBlock := b\<rparr>"
      and v: "isValidPosition b (placedBlocks s)"
      and l: "length (cells b) = length (cells (fallingBlock s))"
      and t: "type b = type (fallingBlock s)" by blast
    have "cells b \<noteq> []" using l h(1) by auto
    with v have "inBoard b" by (rule isValidPosition_inBoard)
    moreover have "squareIsSquare b" using t False by (simp add: squareIsSquare_def)
    ultimately show ?thesis using assms(1) by (simp add: s' wellFormed_def)
  qed
qed

lemma holdBlock_wellFormed:
  assumes "wellFormed s" and "holdBlock s = Inr s'"
  shows "wellFormed s'"
proof (cases "blockHeldDuringFall s")
  case True
  then have "s' = s" using assms(2) by (simp add: holdBlock_def)
  then show ?thesis using assms(1) by simp
next
  case False
  from holdBlock_performed [OF False assms(2)] obtain k where
    f: "fallingBlock s' = createFallingBlock k" by blast
  have g: "placedBlocks s' = placedBlocks s"
    using assms(2) False by (auto simp add: holdBlock_def Let_def split: sum.splits if_splits)
  have n: "\<exists>k. nextBlock s' = createFallingBlock k"
    using assms False drawFromBag_created
    by (auto simp add: holdBlock_def Let_def wellFormed_def split: sum.splits if_splits)
  show ?thesis
    using assms(1) n
    by (simp add: wellFormed_def f g inBoard_createFallingBlock squareIsSquare_createFallingBlock)
qed

lemma initialStateValue_wellFormed: "wellFormed initialStateValue"
proof -
  have "fallingBlock initialStateValue = createFallingBlock T_SHAPE"
    and "nextBlock initialStateValue = createFallingBlock L_SHAPE2"
    by (simp_all add: initialStateValue_def createFallingBlock_def)
  moreover have "list_all (\<lambda>row. length row = GRID_WIDTH) (placedBlocks initialStateValue)"
    by (simp add: initialStateValue_def emptyGrid_def list_all_iff)
  ultimately show ?thesis
    unfolding wellFormed_def
    by (metis inBoard_createFallingBlock squareIsSquare_createFallingBlock)
qed

lemma restartGame_wellFormed:
  assumes "wellFormed s" and "restartGame s = Inr s'"
  shows "wellFormed s'"
proof (cases "gameEnd s")
  case False
  then have "s' = s" using assms(2) by (simp add: restartGame_def)
  then show ?thesis using assms(1) by simp
next
  case True
  from assms(2) True obtain d1 d2 where
    d1: "drawFromBag (currentSeed s) (currentBag s) = Inr d1" and
    d2: "drawFromBag (newSeed d1) (newBag d1) = Inr d2" and
    s': "s' = initialStateValue\<lparr>highScore := max (score s) (highScore s),
                                 fallingBlock := drawnBlock d1,
                                 nextBlock := drawnBlock d2,
                                 blockHeldDuringFall := False,
                                 heldBlock := None,
                                 currentSeed := newSeed d2,
                                 currentBag := newBag d2\<rparr>"
    by (auto simp add: restartGame_def initialState_value split: sum.splits)
  from drawFromBag_created [OF d1] obtain k1 where k1: "drawnBlock d1 = createFallingBlock k1" by blast
  from drawFromBag_created [OF d2] obtain k2 where k2: "drawnBlock d2 = createFallingBlock k2" by blast
  show ?thesis
    using initialStateValue_wellFormed
    by (auto simp add: s' wellFormed_def k1 k2 inBoard_createFallingBlock
          squareIsSquare_createFallingBlock)
qed

lemma reducer_wellFormed:
  assumes "wellFormed s" and "reducer s a = Some (Inr s')"
  shows "wellFormed s'"
proof (cases "gameEnd s \<and> a \<noteq> RestartMove")
  case True
  then have "s' = s" using assms(2) by (simp add: reducer_def)
  then show ?thesis using assms(1) by simp
next
  case False
  then have ap: "applyAction a s = Some (Inr s')"
    using assms(2) by (auto simp add: reducer_def split: if_splits)
  show ?thesis
  proof (cases a)
    case MoveLeft
    then show ?thesis using ap assms(1) move_wellFormed [of s DirLeft s'] by (simp add: moveLeft_def)
  next
    case MoveRight
    then show ?thesis using ap assms(1) move_wellFormed [of s DirRight s'] by (simp add: moveRight_def)
  next
    case MoveDown
    then show ?thesis using ap assms(1) tick_wellFormed [of s s'] by (simp add: moveDown_def)
  next
    case Tick
    then show ?thesis using ap assms(1) tick_wellFormed [of s s'] by simp
  next
    case RotateMove
    then show ?thesis using ap assms(1) rotateBlock_wellFormed [of s s'] by simp
  next
    case HardDownMove
    then show ?thesis using ap assms(1) moveHardDown_wellFormed [of s s'] by simp
  next
    case RestartMove
    then show ?thesis using ap assms(1) restartGame_wellFormed [of s s'] by simp
  next
    case HoldMove
    then show ?thesis using ap assms(1) holdBlock_wellFormed [of s s'] by simp
  qed
qed

lemma reachable_wellFormed:
  assumes "reachable s"
  shows "wellFormed s"
  using assms
proof (induction rule: reachable.induct)
  case (reachable_initial s)
  then have "s = initialStateValue" by (simp add: initialState_value)
  then show ?case by (simp add: initialStateValue_wellFormed)
next
  case (reachable_step s action s')
  then show ?case using reducer_wellFormed by blast
qed

text \<open>
  So the hypotheses of the theorems on lateral moves, on the rotation of the square and on
  the ghost position hold in every state of a game: there \<open>canMove\<close> is
  \<open>isValidPosition\<close> on the shifted block, and a falling block tagged \<open>SQUARE\<close> is never
  rotated.
\<close>

lemma reachable_lateral_move:
  assumes "reachable s"
  shows "canMove direction s =
           Inr (isValidPosition (shiftedBlock direction (fallingBlock s)) (placedBlocks s)) \<and>
         move direction s =
           Inr (if isValidPosition (shiftedBlock direction (fallingBlock s)) (placedBlocks s)
                then s\<lparr>fallingBlock := shiftedBlock direction (fallingBlock s)\<rparr> else s)"
proof -
  note h = wellFormed_hyps [OF reachable_wellFormed [OF assms]]
  from h(3) h(4) have
    c: "canMove direction s =
          Inr (isValidPosition (shiftedBlock direction (fallingBlock s)) (placedBlocks s))"
    by (rule canMove_eq_isValidPosition)
  then show ?thesis by (simp add: move_def shiftedBlock_def)
qed

lemma reachable_ghost_hypotheses:
  assumes "reachable s"
  shows "cells (fallingBlock s) \<noteq> []"
    and "\<forall>c \<in> set (cells (fallingBlock s)). 0 \<le> cx c \<and> cx c < CANVAS_WIDTH"
    and "\<forall>row \<in> set (placedBlocks s). GRID_WIDTH \<le> length row"
  using wellFormed_hyps [OF reachable_wellFormed [OF assms]] by blast+

lemma reachable_square_rotation:
  assumes "reachable s" and "type (fallingBlock s) = SQUARE"
  shows "rotateBlock s = Inr s"
proof -
  have "squareIsSquare (fallingBlock s)"
    using reachable_wellFormed [OF assms(1)] by (simp add: wellFormed_def)
  then obtain dx dy where "fallingBlock s = translated dx dy squareBlock"
    using assms(2) by (auto simp add: squareIsSquare_def)
  then show ?thesis by (rule rotateBlock_square_layout)
qed

end
